theory Spec2Isabelle
  imports Complex_Main
begin

section \<open>Numeric model\<close>

text \<open>
  The program (\<^verbatim>\<open>eis_ui_study.py\<close>) computes with NumPy arrays of \<^verbatim>\<open>float64\<close> and
  \<^verbatim>\<open>complex128\<close>. The embedding idealises a finite float as a \<^typ>\<open>real\<close> and a finite
  complex value as a \<^typ>\<open>complex\<close>: rounding, overflow and underflow are not modelled.
  What is modelled of the floating-point behaviour is the part the control flow can see:

  \<^item> an element of a complex array is a \<open>sample\<close>: \<open>Some z\<close> for a finite value,
    \<open>None\<close> for a value with a NaN component. NumPy's array division by a complex zero
    raises nothing; with the real numerators of this program (\<open>1\<close> and \<open>sigma\<close>) it
    yields \<open>inf + nan j\<close> or \<open>nan + nan j\<close>, and every later operation keeps a NaN;
  \<^item> a division between two Python scalars (\<^verbatim>\<open>1/Rct\<close>) raises
    \<^verbatim>\<open>ZeroDivisionError\<close> on a zero divisor;
  \<^item> \<^verbatim>\<open>np.argmax\<close> and \<^verbatim>\<open>np.argmin\<close> raise \<^verbatim>\<open>ValueError\<close> on an empty array,
    return the first index of the extremum, and stop at the first NaN.
\<close>

datatype error = ZeroDivisionError | ValueError | IndexError

type_synonym sample = "complex option"

definition np_div :: "sample \<Rightarrow> sample \<Rightarrow> sample" where
  "np_div a b =
     (case a of None \<Rightarrow> None
      | Some x \<Rightarrow> (case b of None \<Rightarrow> None
                   | Some y \<Rightarrow> if y = 0 then None else Some (x / y)))"

definition np_add :: "sample \<Rightarrow> sample \<Rightarrow> sample" where
  "np_add a b =
     (case a of None \<Rightarrow> None
      | Some x \<Rightarrow> (case b of None \<Rightarrow> None | Some y \<Rightarrow> Some (x + y)))"

definition np_sqrt :: "sample \<Rightarrow> sample" where
  "np_sqrt a = map_option csqrt a"

definition np_abs :: "sample \<Rightarrow> real option" where
  "np_abs a = map_option cmod a"

definition neg_imag :: "sample \<Rightarrow> real option" where
  "neg_imag a = map_option (\<lambda>z. - Im z) a"

section \<open>The single-cell model: \<^verbatim>\<open>cell_impedance\<close>\<close>

text \<open>
  \<^verbatim>\<open>
  def cell_impedance(freq, Rs, Rct, Cdl, sigma):
      omega = 2 * np.pi * freq
      Zc = 1 / (1j * omega * Cdl)
      Zw = sigma / np.sqrt(1j * omega)
      Z_parallel = 1 / (1/Rct + 1/Zc)
      return Rs + Z_parallel + Zw
  \<close>
  \<open>freq\<close> is an array, the four parameters are Python floats. The array operations are
  elementwise, so each line is given for one frequency sample and the function maps over
  the grid. The only scalar division is \<^verbatim>\<open>1/Rct\<close>; it is evaluated once, whatever the
  length of the grid.
\<close>

definition omega_of :: "real \<Rightarrow> real" where
  "omega_of f = 2 * pi * f"

definition Zc :: "real \<Rightarrow> real \<Rightarrow> sample" where
  "Zc omega Cdl = np_div (Some 1) (Some (\<i> * complex_of_real omega * complex_of_real Cdl))"

definition Zw :: "real \<Rightarrow> real \<Rightarrow> sample" where
  "Zw omega sigma =
     np_div (Some (complex_of_real sigma)) (np_sqrt (Some (\<i> * complex_of_real omega)))"

definition Z_parallel :: "real \<Rightarrow> sample \<Rightarrow> sample" where
  "Z_parallel Rct zc =
     np_div (Some 1) (np_add (Some (complex_of_real (1 / Rct))) (np_div (Some 1) zc))"

definition cell_impedance_at :: "real \<Rightarrow> real \<Rightarrow> real \<Rightarrow> real \<Rightarrow> real \<Rightarrow> sample" where
  "cell_impedance_at f Rs Rct Cdl sigma =
     (let omega = omega_of f in
      np_add (np_add (Some (complex_of_real Rs)) (Z_parallel Rct (Zc omega Cdl)))
             (Zw omega sigma))"

definition cell_impedance ::
  "real list \<Rightarrow> real \<Rightarrow> real \<Rightarrow> real \<Rightarrow> real \<Rightarrow> error + sample list" where
  "cell_impedance freq Rs Rct Cdl sigma =
     (if Rct = 0 then Inl ZeroDivisionError
      else Inr (map (\<lambda>f. cell_impedance_at f Rs Rct Cdl sigma) freq))"

text \<open>
  The formula of the specification, written after its words on ideal complex numbers
  (for comparison with the code above): \<open>Zp = 1 / (1/Rct + j\<omega>Cdl)\<close>,
  \<open>Zw = \<sigma> / sqrt (j\<omega>)\<close> with the principal square root, \<open>Z = Rs + Zp + Zw\<close>.
\<close>

definition Zp_closed :: "real \<Rightarrow> real \<Rightarrow> real \<Rightarrow> complex" where
  "Zp_closed w Rct Cdl =
     1 / (1 / complex_of_real Rct + \<i> * complex_of_real w * complex_of_real Cdl)"

definition Zw_closed :: "real \<Rightarrow> real \<Rightarrow> complex" where
  "Zw_closed w sigma = complex_of_real sigma / csqrt (\<i> * complex_of_real w)"

definition Z_closed :: "real \<Rightarrow> real \<Rightarrow> real \<Rightarrow> real \<Rightarrow> real \<Rightarrow> complex" where
  "Z_closed f Rs Rct Cdl sigma =
     complex_of_real Rs + Zp_closed (2 * pi * f) Rct Cdl + Zw_closed (2 * pi * f) sigma"

section \<open>NumPy reductions used by \<^verbatim>\<open>main\<close>\<close>

text \<open>
  \<^verbatim>\<open>np.argmax\<close> scans from index 0 and keeps the first index of the largest value: the
  running maximum is replaced only by a strictly larger element. A NaN ends the scan and
  its index is the result. \<^verbatim>\<open>np.argmin\<close> is the mirror image. Both raise
  \<^verbatim>\<open>ValueError\<close> on an empty array.
\<close>

fun argmax_scan :: "real option list \<Rightarrow> nat \<Rightarrow> real \<Rightarrow> nat \<Rightarrow> nat" where
  "argmax_scan [] i m k = k"
| "argmax_scan (None # xs) i m k = i"
| "argmax_scan (Some x # xs) i m k =
     (if m < x then argmax_scan xs (Suc i) x i else argmax_scan xs (Suc i) m k)"

definition np_argmax :: "real option list \<Rightarrow> error + nat" where
  "np_argmax a =
     (case a of [] \<Rightarrow> Inl ValueError
      | None # xs \<Rightarrow> Inr 0
      | Some x # xs \<Rightarrow> Inr (argmax_scan xs 1 x 0))"

fun argmin_scan :: "real option list \<Rightarrow> nat \<Rightarrow> real \<Rightarrow> nat \<Rightarrow> nat" where
  "argmin_scan [] i m k = k"
| "argmin_scan (None # xs) i m k = i"
| "argmin_scan (Some x # xs) i m k =
     (if x < m then argmin_scan xs (Suc i) x i else argmin_scan xs (Suc i) m k)"

definition np_argmin :: "real option list \<Rightarrow> error + nat" where
  "np_argmin a =
     (case a of [] \<Rightarrow> Inl ValueError
      | None # xs \<Rightarrow> Inr 0
      | Some x # xs \<Rightarrow> Inr (argmin_scan xs 1 x 0))"

text \<open>Indexing an array with a non-negative index: \<^verbatim>\<open>Z[idx]\<close>.\<close>

definition getitem :: "'a list \<Rightarrow> nat \<Rightarrow> error + 'a" where
  "getitem xs i = (if i < length xs then Inr (xs ! i) else Inl IndexError)"

text \<open>
  \<^verbatim>\<open>np.sum(Z_cells, axis=0)\<close> on a Python list of arrays: the list becomes a
  two-dimensional array (one row per cell) and the rows are added elementwise, in order.
  An empty list is the empty one-dimensional array, whose sum is the scalar \<open>0.0\<close>; rows of
  different lengths do not form an array and the call raises.
\<close>

datatype ndarray = Scalar sample | Array "sample list"

definition np_sum_axis0 :: "sample list list \<Rightarrow> error + ndarray" where
  "np_sum_axis0 Zs =
     (case Zs of [] \<Rightarrow> Inr (Scalar (Some 0))
      | Z # rest \<Rightarrow>
          if list_all (\<lambda>Z'. length Z' = length Z) rest
          then Inr (Array (foldl (\<lambda>acc Z'. map2 np_add acc Z') Z rest))
          else Inl ValueError)"

text \<open>
  \<^verbatim>\<open>np.logspace(start, stop, num)\<close> is \<open>10 ** np.linspace(start, stop, num)\<close>, and
  \<open>linspace\<close> is \<open>arange(num) * ((stop - start) / (num - 1)) + start\<close>.
\<close>

definition linspace :: "real \<Rightarrow> real \<Rightarrow> nat \<Rightarrow> real list" where
  "linspace start stop num =
     map (\<lambda>k. real k * ((stop - start) / real (num - 1)) + start) [0..<num]"

definition logspace :: "real \<Rightarrow> real \<Rightarrow> nat \<Rightarrow> real list" where
  "logspace start stop num = map (\<lambda>y. 10 powr y) (linspace start stop num)"

section \<open>The stack and the diagnostics: \<^verbatim>\<open>main\<close>\<close>

text \<open>
  \<^verbatim>\<open>
  num_cells = st.slider("Number of Cells in Stack (Series)", 1, 5, 3)
  freq = np.logspace(-1, 5, 300)
  Z_cells = []
  for i in range(num_cells):
      Rs = cols[0].slider(..., 0.01, 2.0, 0.1, key=f"Rs_{i}")
      Rct = cols[1].slider(..., 0.1, 10.0, 1.0, key=f"Rct_{i}")
      log_cdl = cols[2].slider(..., -6.0, -2.0, -4.0, key=f"Cdl_{i}")
      Cdl = 10 ** log_cdl
      sigma = cols[3].slider(..., 0.01, 1.0, 0.1, key=f"sigma_{i}")
      Z = cell_impedance(freq, Rs, Rct, Cdl, sigma)
      Z_cells.append(Z)
  Z_stack = np.sum(Z_cells, axis=0)
  ...
  for i, Z in enumerate(Z_cells):
      idx_1Hz = np.argmin(np.abs(freq - 1))
      ... np.abs(Z[idx_1Hz]) ...
      tau = (1 / (2 * np.pi)) * (np.argmax(-Z.imag))
  \<close>
  Between \<open>np.sum\<close> and the diagnostics loop \<open>main\<close> draws the two figures:
  \<^verbatim>\<open>
  st.pyplot(plot_nyquist(Z_stack, Z_cells))
  st.pyplot(plot_bode(freq, Z_stack, Z_cells))
  \<close>
  The page text and the circuit drawing are left out. The part of \<open>main\<close> between the
  widgets and the output is \<open>stack\<close> below, a function of the grid and of the cells'
  parameters.
\<close>

record cell_params =
  p_Rs :: real
  p_Rct :: real
  p_Cdl :: real
  p_sigma :: real

fun cell_curves :: "real list \<Rightarrow> cell_params list \<Rightarrow> sample list list \<Rightarrow> error + sample list list"
  where
  "cell_curves freq [] Z_cells = Inr Z_cells"
| "cell_curves freq (p # ps) Z_cells =
     (case cell_impedance freq (p_Rs p) (p_Rct p) (p_Cdl p) (p_sigma p) of
        Inl e \<Rightarrow> Inl e
      | Inr Z \<Rightarrow> cell_curves freq ps (Z_cells @ [Z]))"

definition idx_1Hz :: "real list \<Rightarrow> error + nat" where
  "idx_1Hz freq = np_argmin (map (\<lambda>f. Some \<bar>f - 1\<bar>) freq)"

definition abs_at_1Hz :: "real list \<Rightarrow> sample list \<Rightarrow> error + real option" where
  "abs_at_1Hz freq Z =
     (case idx_1Hz freq of Inl e \<Rightarrow> Inl e
      | Inr idx \<Rightarrow> (case getitem Z idx of Inl e \<Rightarrow> Inl e | Inr z \<Rightarrow> Inr (np_abs z)))"

definition tau :: "sample list \<Rightarrow> error + real" where
  "tau Z =
     (case np_argmax (map neg_imag Z) of Inl e \<Rightarrow> Inl e
      | Inr k \<Rightarrow> Inr ((1 / (2 * pi)) * real k))"

record cell_diagnostic =
  magnitudeAt1Hz :: "real option"
  estimatedTau :: real

fun diagnostics :: "real list \<Rightarrow> sample list list \<Rightarrow> error + cell_diagnostic list" where
  "diagnostics freq [] = Inr []"
| "diagnostics freq (Z # Zs) =
     (case abs_at_1Hz freq Z of Inl e \<Rightarrow> Inl e
      | Inr m \<Rightarrow> (case tau Z of Inl e \<Rightarrow> Inl e
          | Inr t \<Rightarrow> (case diagnostics freq Zs of Inl e \<Rightarrow> Inl e
              | Inr ds \<Rightarrow> Inr (\<lparr>magnitudeAt1Hz = m, estimatedTau = t\<rparr> # ds))))"

text \<open>
  The figures. What a figure shows is not modelled; what is modelled is the one way the
  drawing can raise: Matplotlib's \<^verbatim>\<open>plot\<close> and \<^verbatim>\<open>semilogx\<close> raise
  \<^verbatim>\<open>ValueError\<close> when \<open>x\<close> and \<open>y\<close> do not have the same first dimension, a scalar
  counting as one point. \<open>plot_lines\<close> takes the dimensions of the \<open>x\<close> and \<open>y\<close> of
  each line in the order the lines are drawn.
  \<^verbatim>\<open>
  def plot_nyquist(Z_stack, Z_cells=None):
      ax.plot(Z_stack.real, -Z_stack.imag, ...)
      if Z_cells:
          for i, Z in enumerate(Z_cells):
              ax.plot(Z.real, -Z.imag, ...)

  def plot_bode(freq, Z_stack, Z_cells=None):
      ax1.semilogx(freq, 20 * np.log10(np.abs(Z_stack)), ...)
      if Z_cells:
          for i, Z in enumerate(Z_cells):
              ax1.semilogx(freq, 20 * np.log10(np.abs(Z)), ...)
      ax2.semilogx(freq, np.angle(Z_stack, deg=True), ...)
      if Z_cells:
          for i, Z in enumerate(Z_cells):
              ax2.semilogx(freq, np.angle(Z, deg=True), ...)
  \<close>
\<close>

definition first_dim :: "ndarray \<Rightarrow> nat" where
  "first_dim a = (case a of Scalar z \<Rightarrow> 1 | Array S \<Rightarrow> length S)"

fun plot_lines :: "(nat \<times> nat) list \<Rightarrow> error + unit" where
  "plot_lines [] = Inr ()"
| "plot_lines ((nx, ny) # rest) = (if nx = ny then plot_lines rest else Inl ValueError)"

definition plot_nyquist :: "ndarray \<Rightarrow> sample list list \<Rightarrow> error + unit" where
  "plot_nyquist Z_stack Z_cells =
     plot_lines ((first_dim Z_stack, first_dim Z_stack)
                 # map (\<lambda>Z. (length Z, length Z)) Z_cells)"

definition plot_bode :: "real list \<Rightarrow> ndarray \<Rightarrow> sample list list \<Rightarrow> error + unit" where
  "plot_bode freq Z_stack Z_cells =
     plot_lines (((length freq, first_dim Z_stack)
                  # map (\<lambda>Z. (length freq, length Z)) Z_cells)
                 @ ((length freq, first_dim Z_stack)
                    # map (\<lambda>Z. (length freq, length Z)) Z_cells))"

record stack_result =
  stackCurve :: ndarray
  cellCurves :: "sample list list"
  cellDiagnostics :: "cell_diagnostic list"

definition stack :: "real list \<Rightarrow> cell_params list \<Rightarrow> error + stack_result" where
  "stack freq ps =
     (case cell_curves freq ps [] of Inl e \<Rightarrow> Inl e
      | Inr Z_cells \<Rightarrow> (case np_sum_axis0 Z_cells of Inl e \<Rightarrow> Inl e
          | Inr Z_stack \<Rightarrow> (case plot_nyquist Z_stack Z_cells of Inl e \<Rightarrow> Inl e
              | Inr u \<Rightarrow> (case plot_bode freq Z_stack Z_cells of Inl e \<Rightarrow> Inl e
                  | Inr v \<Rightarrow> (case diagnostics freq Z_cells of Inl e \<Rightarrow> Inl e
                      | Inr ds \<Rightarrow>
                          Inr \<lparr>stackCurve = Z_stack, cellCurves = Z_cells,
                               cellDiagnostics = ds\<rparr>)))))"

text \<open>
  The widgets. \<^verbatim>\<open>st.slider(label, min_value, max_value, value)\<close> belongs to Streamlit,
  not to this program; what \<open>main\<close> relies on is that the value it returns lies between
  \<open>min_value\<close> and \<open>max_value\<close>. The values the sliders return are the inputs of \<open>main\<close>:
  the number of cells and, for each cell index, the four slider values.
\<close>

record cell_sliders =
  s_Rs :: real
  s_Rct :: real
  s_log_cdl :: real
  s_sigma :: real

definition slider_value :: "real \<Rightarrow> real \<Rightarrow> real \<Rightarrow> bool" where
  "slider_value min_value max_value v \<longleftrightarrow> min_value \<le> v \<and> v \<le> max_value"

definition cell_sliders_ok :: "cell_sliders \<Rightarrow> bool" where
  "cell_sliders_ok s \<longleftrightarrow>
     slider_value (1 / 100) 2 (s_Rs s) \<and> slider_value (1 / 10) 10 (s_Rct s) \<and>
     slider_value (- 6) (- 2) (s_log_cdl s) \<and> slider_value (1 / 100) 1 (s_sigma s)"

definition sliders_ok :: "int \<Rightarrow> (nat \<Rightarrow> cell_sliders) \<Rightarrow> bool" where
  "sliders_ok num_cells sl \<longleftrightarrow>
     1 \<le> num_cells \<and> num_cells \<le> 5 \<and> list_all (\<lambda>i. cell_sliders_ok (sl i)) [0..<nat num_cells]"

definition read_cell :: "cell_sliders \<Rightarrow> cell_params" where
  "read_cell s =
     \<lparr>p_Rs = s_Rs s, p_Rct = s_Rct s, p_Cdl = 10 powr s_log_cdl s, p_sigma = s_sigma s\<rparr>"

definition main_freq :: "real list" where
  "main_freq = logspace (- 1) 5 300"

definition main_params :: "int \<Rightarrow> (nat \<Rightarrow> cell_sliders) \<Rightarrow> cell_params list" where
  "main_params num_cells sl = map (\<lambda>i. read_cell (sl i)) [0..<nat num_cells]"

definition main :: "int \<Rightarrow> (nat \<Rightarrow> cell_sliders) \<Rightarrow> error + stack_result" where
  "main num_cells sl = stack main_freq (main_params num_cells sl)"

text \<open>
  The curve of one cell, as \<open>cell_impedance\<close> returns it when it does not raise, and the
  closed form for a cell given as a record.
\<close>

definition curve_of :: "real list \<Rightarrow> cell_params \<Rightarrow> sample list" where
  "curve_of freq p = map (\<lambda>f. cell_impedance_at f (p_Rs p) (p_Rct p) (p_Cdl p) (p_sigma p)) freq"

definition Z_of :: "cell_params \<Rightarrow> real \<Rightarrow> complex" where
  "Z_of p f = Z_closed f (p_Rs p) (p_Rct p) (p_Cdl p) (p_sigma p)"

text \<open>
  The inputs the specification calls valid: a grid that is non-empty, positive and
  strictly increasing, and parameters that are all strictly positive.
\<close>

definition valid_grid :: "real list \<Rightarrow> bool" where
  "valid_grid freq \<longleftrightarrow> freq \<noteq> [] \<and> list_all (\<lambda>f. 0 < f) freq \<and> sorted_wrt (<) freq"

definition valid_params :: "cell_params \<Rightarrow> bool" where
  "valid_params p \<longleftrightarrow> 0 < p_Rs p \<and> 0 < p_Rct p \<and> 0 < p_Cdl p \<and> 0 < p_sigma p"

text \<open>
  What the specification asks of the two index searches: the index of an extremum of a
  finite array, the first one in index order when the extremum is attained several times.
\<close>

definition first_min_index :: "real list \<Rightarrow> nat \<Rightarrow> bool" where
  "first_min_index a k \<longleftrightarrow>
     k < length a \<and> (\<forall>j<length a. a ! k \<le> a ! j) \<and> (\<forall>j<k. a ! k < a ! j)"

definition first_max_index :: "real list \<Rightarrow> nat \<Rightarrow> bool" where
  "first_max_index a k \<longleftrightarrow>
     k < length a \<and> (\<forall>j<length a. a ! j \<le> a ! k) \<and> (\<forall>j<k. a ! j < a ! k)"

section \<open>Helper facts\<close>

lemma Zc_Some:
  assumes "omega \<noteq> 0" "Cdl \<noteq> 0"
  shows "Zc omega Cdl = Some (1 / (\<i> * complex_of_real omega * complex_of_real Cdl))"
  using assms by (simp add: Zc_def np_div_def)

lemma Zw_Some:
  assumes "omega \<noteq> 0"
  shows "Zw omega sigma = Some (Zw_closed omega sigma)"
  using assms by (simp add: Zw_def np_div_def np_sqrt_def Zw_closed_def)

lemma parallel_denominator_nonzero:
  assumes "Rct \<noteq> 0"
  shows "complex_of_real (1 / Rct) + y \<noteq> 0 \<or> Re y \<noteq> 0"
proof (cases "Re y = 0")
  case True
  then have "Re (complex_of_real (1 / Rct) + y) = 1 / Rct" by simp
  moreover have "1 / Rct \<noteq> 0" using assms by simp
  ultimately have "complex_of_real (1 / Rct) + y \<noteq> 0"
    by (metis zero_complex.simps(1))
  then show ?thesis by simp
next
  case False
  then show ?thesis by simp
qed

lemma Z_parallel_Some:
  assumes "omega \<noteq> 0" "Rct \<noteq> 0" "Cdl \<noteq> 0"
  shows "Z_parallel Rct (Zc omega Cdl) = Some (Zp_closed omega Rct Cdl)"
proof -
  let ?y = "\<i> * complex_of_real omega * complex_of_real Cdl"
  have y: "?y \<noteq> 0" using assms by simp
  have inv: "1 / ?y \<noteq> 0" using y by simp
  have "Re (1 / (1 / ?y)) = 0" by simp
  then have d: "complex_of_real (1 / Rct) + 1 / (1 / ?y) \<noteq> 0"
    using parallel_denominator_nonzero [OF assms(2), of "1 / (1 / ?y)"] by blast
  show ?thesis
    using assms y inv d
    by (simp add: Zc_Some Z_parallel_def np_div_def np_add_def Zp_closed_def)
qed

lemma cell_impedance_at_Some:
  assumes "f \<noteq> 0" "Rct \<noteq> 0" "Cdl \<noteq> 0"
  shows "cell_impedance_at f Rs Rct Cdl sigma = Some (Z_closed f Rs Rct Cdl sigma)"
proof -
  have w: "omega_of f \<noteq> 0" using assms by (simp add: omega_of_def)
  show ?thesis
    unfolding cell_impedance_at_def Let_def Z_parallel_Some [OF w assms(2,3)] Zw_Some [OF w]
    by (simp add: np_add_def Z_closed_def omega_of_def)
qed

lemma csqrt_i_omega:
  assumes "0 < w"
  shows "csqrt (\<i> * complex_of_real w) = Complex (sqrt (w / 2)) (sqrt (w / 2))"
  using assms by (simp add: complex_eq_iff norm_mult)

lemma Zp_denominator:
  "1 / complex_of_real Rct + \<i> * complex_of_real w * complex_of_real Cdl
   = Complex (1 / Rct) (w * Cdl)"
  by (simp add: complex_eq_iff Re_divide Im_divide power2_eq_square)

lemma Zp_parts:
  shows "Re (Zp_closed w Rct Cdl) = (1 / Rct) / ((1 / Rct)\<^sup>2 + (w * Cdl)\<^sup>2)"
    and "Im (Zp_closed w Rct Cdl) = - (w * Cdl) / ((1 / Rct)\<^sup>2 + (w * Cdl)\<^sup>2)"
  unfolding Zp_closed_def Zp_denominator by (simp_all add: Re_divide Im_divide)

lemma Zw_parts:
  assumes "0 < w"
  shows "Re (Zw_closed w sigma) = sigma / (2 * sqrt (w / 2))"
    and "Im (Zw_closed w sigma) = - sigma / (2 * sqrt (w / 2))"
  using assms
  by (simp_all add: Zw_closed_def csqrt_i_omega Re_divide Im_divide power2_eq_square field_simps)

lemma Zp_signs:
  assumes "0 < w" "0 < Rct" "0 < Cdl"
  shows "0 < Re (Zp_closed w Rct Cdl)" and "Im (Zp_closed w Rct Cdl) < 0"
proof -
  have D: "0 < (1 / Rct)\<^sup>2 + (w * Cdl)\<^sup>2"
    using assms by (simp add: add_pos_nonneg)
  show "0 < Re (Zp_closed w Rct Cdl)"
    unfolding Zp_parts using assms D by simp
  have "0 < w * Cdl" using assms by simp
  then show "Im (Zp_closed w Rct Cdl) < 0"
    unfolding Zp_parts using D by (simp add: divide_neg_pos)
qed

lemma Zw_signs:
  assumes "0 < w" "0 < sigma"
  shows "0 < Re (Zw_closed w sigma)" and "Im (Zw_closed w sigma) < 0"
  using assms by (simp_all add: Zw_parts divide_neg_pos)

lemma cell_impedance_Inr:
  assumes "Rct \<noteq> 0"
  shows "cell_impedance freq Rs Rct Cdl sigma = Inr (map (\<lambda>f. cell_impedance_at f Rs Rct Cdl sigma) freq)"
  using assms by (simp add: cell_impedance_def)

lemma cell_impedance_closed:
  assumes "list_all (\<lambda>f. f \<noteq> 0) freq" "Rct \<noteq> 0" "Cdl \<noteq> 0"
  shows "cell_impedance freq Rs Rct Cdl sigma = Inr (map (\<lambda>f. Some (Z_closed f Rs Rct Cdl sigma)) freq)"
  using assms by (simp add: cell_impedance_def list_all_iff cell_impedance_at_Some)

section \<open>C1: the impedance formula\<close>

text \<open>
  C1. For a grid of positive frequencies and strictly positive \<open>Rs\<close>, \<open>Rct\<close>, \<open>Cdl\<close>,
  \<open>sigma\<close>, \<open>cell_impedance\<close> returns, at each frequency \<open>f\<close>, the finite value
  \<open>Rs + 1/(1/Rct + j\<omega>Cdl) + \<sigma>/sqrt(j\<omega>)\<close> with \<open>\<omega> = 2\<pi>f\<close>; the square root is the
  principal one: it squares to \<open>j\<omega>\<close> and has positive real and imaginary parts.
\<close>

theorem cell_impedance_formula:
  assumes "list_all (\<lambda>f. 0 < f) freq" and "0 < Rs" and "0 < Rct" and "0 < Cdl" and "0 < sigma"
  shows "cell_impedance freq Rs Rct Cdl sigma
         = Inr (map (\<lambda>f. Some (complex_of_real Rs
                  + 1 / (1 / complex_of_real Rct
                         + \<i> * complex_of_real (2 * pi * f) * complex_of_real Cdl)
                  + complex_of_real sigma / csqrt (\<i> * complex_of_real (2 * pi * f)))) freq)
       \<and> list_all (\<lambda>f. (csqrt (\<i> * complex_of_real (2 * pi * f)))\<^sup>2 = \<i> * complex_of_real (2 * pi * f)
            \<and> 0 < Re (csqrt (\<i> * complex_of_real (2 * pi * f)))
            \<and> 0 < Im (csqrt (\<i> * complex_of_real (2 * pi * f)))) freq"
proof -
  have nz: "list_all (\<lambda>f. f \<noteq> 0) freq"
    using assms(1) by (auto simp: list_all_iff)
  have "cell_impedance freq Rs Rct Cdl sigma = Inr (map (\<lambda>f. Some (Z_closed f Rs Rct Cdl sigma)) freq)"
    using cell_impedance_closed [OF nz] assms by simp
  then have first: "cell_impedance freq Rs Rct Cdl sigma
         = Inr (map (\<lambda>f. Some (complex_of_real Rs
                  + 1 / (1 / complex_of_real Rct
                         + \<i> * complex_of_real (2 * pi * f) * complex_of_real Cdl)
                  + complex_of_real sigma / csqrt (\<i> * complex_of_real (2 * pi * f)))) freq)"
    by (simp add: Z_closed_def Zp_closed_def Zw_closed_def)
  have "0 < Re (csqrt (\<i> * complex_of_real (2 * pi * f))) \<and> 0 < Im (csqrt (\<i> * complex_of_real (2 * pi * f)))"
    if "0 < f" for f
  proof -
    have "0 < 2 * pi * f" using that by simp
    then show ?thesis by (simp only: csqrt_i_omega) simp
  qed
  then have second: "list_all (\<lambda>f. (csqrt (\<i> * complex_of_real (2 * pi * f)))\<^sup>2 = \<i> * complex_of_real (2 * pi * f)
            \<and> 0 < Re (csqrt (\<i> * complex_of_real (2 * pi * f)))
            \<and> 0 < Im (csqrt (\<i> * complex_of_real (2 * pi * f)))) freq"
    using assms(1) unfolding list_all_iff by (simp del: csqrt.simps)
  show ?thesis using first second by blast
qed

theorem cell_impedance_formula_witness:
  "cell_impedance [1, 10] (1/10) 1 (1/10000) (1/10)
     = Inr [Some (complex_of_real (1/10)
                  + 1 / (1 / complex_of_real 1
                         + \<i> * complex_of_real (2 * pi * 1) * complex_of_real (1/10000))
                  + complex_of_real (1/10) / csqrt (\<i> * complex_of_real (2 * pi * 1))),
            Some (complex_of_real (1/10)
                  + 1 / (1 / complex_of_real 1
                         + \<i> * complex_of_real (2 * pi * 10) * complex_of_real (1/10000))
                  + complex_of_real (1/10) / csqrt (\<i> * complex_of_real (2 * pi * 10)))]
   \<and> 0 < Re (csqrt (\<i> * complex_of_real (2 * pi * 1)))
   \<and> 0 < Im (csqrt (\<i> * complex_of_real (2 * pi * 1)))"
  using cell_impedance_formula [of "[1, 10]" "1/10" 1 "1/10000" "1/10"]
  by (simp del: csqrt.simps)

lemma Zc_parts:
  assumes "0 < w" "0 < Cdl"
  shows "Re (1 / (\<i> * complex_of_real w * complex_of_real Cdl)) = 0"
    and "cmod (1 / (\<i> * complex_of_real w * complex_of_real Cdl)) = 1 / (w * Cdl)"
  using assms by (simp_all add: norm_divide norm_mult Re_divide)

lemma omega_of_pos: "0 < f \<Longrightarrow> 0 < omega_of f"
  by (simp add: omega_of_def)

lemma omega_of_mono: "f1 < f2 \<Longrightarrow> omega_of f1 < omega_of f2"
  by (simp add: omega_of_def)

lemma Zw_abs_parts:
  assumes "0 < w" "0 < sigma"
  shows "\<bar>Re (Zw_closed w sigma)\<bar> = sigma / (2 * sqrt (w / 2))"
    and "\<bar>Im (Zw_closed w sigma)\<bar> = sigma / (2 * sqrt (w / 2))"
  using assms by (simp_all add: Zw_parts)

lemma warburg_decreasing:
  assumes "0 < w1" "w1 < w2" "0 < sigma"
  shows "sigma / (2 * sqrt (w2 / 2)) < sigma / (2 * sqrt (w1 / 2))"
proof -
  have "sqrt (w1 / 2) < sqrt (w2 / 2)" using assms by simp
  moreover have "0 < sqrt (w1 / 2)" using assms by simp
  ultimately show ?thesis using assms(3)
    by (intro divide_strict_left_mono) (auto intro!: mult_pos_pos)
qed

lemma capacitive_decreasing:
  fixes w1 w2 Cdl :: real
  assumes "0 < w1" "w1 < w2" "0 < Cdl"
  shows "1 / (w2 * Cdl) < 1 / (w1 * Cdl)"
proof -
  have "w1 * Cdl < w2 * Cdl" using assms(2,3) by (rule mult_strict_right_mono)
  moreover have "0 < w1 * Cdl" using assms by simp
  ultimately show ?thesis
    by (intro divide_strict_left_mono) (auto intro!: mult_pos_pos)
qed

section \<open>C8: the capacitive and the Warburg branch\<close>

text \<open>
  C8. For frequencies \<open>0 < f1 < f2\<close> and positive \<open>Cdl\<close>, \<open>sigma\<close>: the capacitive branch
  \<open>Zc\<close> is finite and purely imaginary at both frequencies and its magnitude is strictly
  smaller at the higher one; the Warburg term \<open>Zw\<close> is finite, its real and imaginary
  parts have the same magnitude, and both magnitudes are strictly smaller at the higher
  frequency.
\<close>

theorem branch_shapes:
  assumes "0 < f1" and "f1 < f2" and "0 < Cdl" and "0 < sigma"
  shows "\<exists>c1 c2 w1 w2.
           Zc (omega_of f1) Cdl = Some c1 \<and> Zc (omega_of f2) Cdl = Some c2
         \<and> Zw (omega_of f1) sigma = Some w1 \<and> Zw (omega_of f2) sigma = Some w2
         \<and> Re c1 = 0 \<and> Re c2 = 0 \<and> cmod c2 < cmod c1
         \<and> \<bar>Re w1\<bar> = \<bar>Im w1\<bar> \<and> \<bar>Re w2\<bar> = \<bar>Im w2\<bar>
         \<and> \<bar>Re w2\<bar> < \<bar>Re w1\<bar> \<and> \<bar>Im w2\<bar> < \<bar>Im w1\<bar>"
proof -
  let ?w1 = "omega_of f1" and ?w2 = "omega_of f2"
  have p1: "0 < ?w1" using assms(1) by (rule omega_of_pos)
  have lt: "?w1 < ?w2" using assms(2) by (rule omega_of_mono)
  have p2: "0 < ?w2" using p1 lt by simp
  let ?c1 = "1 / (\<i> * complex_of_real ?w1 * complex_of_real Cdl)"
  let ?c2 = "1 / (\<i> * complex_of_real ?w2 * complex_of_real Cdl)"
  have c1: "Zc ?w1 Cdl = Some ?c1" using p1 assms(3) by (intro Zc_Some) simp_all
  have c2: "Zc ?w2 Cdl = Some ?c2" using p2 assms(3) by (intro Zc_Some) simp_all
  have z1: "Zw ?w1 sigma = Some (Zw_closed ?w1 sigma)" using p1 by (intro Zw_Some) simp
  have z2: "Zw ?w2 sigma = Some (Zw_closed ?w2 sigma)" using p2 by (intro Zw_Some) simp
  have r1: "Re ?c1 = 0" by (rule Zc_parts(1) [OF p1 assms(3)])
  have r2: "Re ?c2 = 0" by (rule Zc_parts(1) [OF p2 assms(3)])
  have m: "cmod ?c2 < cmod ?c1"
    unfolding Zc_parts(2) [OF p1 assms(3)] Zc_parts(2) [OF p2 assms(3)]
    by (rule capacitive_decreasing [OF p1 lt assms(3)])
  have e1: "\<bar>Re (Zw_closed ?w1 sigma)\<bar> = \<bar>Im (Zw_closed ?w1 sigma)\<bar>"
    by (simp only: Zw_abs_parts [OF p1 assms(4)])
  have e2: "\<bar>Re (Zw_closed ?w2 sigma)\<bar> = \<bar>Im (Zw_closed ?w2 sigma)\<bar>"
    by (simp only: Zw_abs_parts [OF p2 assms(4)])
  have d: "\<bar>Re (Zw_closed ?w2 sigma)\<bar> < \<bar>Re (Zw_closed ?w1 sigma)\<bar>"
    unfolding Zw_abs_parts [OF p1 assms(4)] Zw_abs_parts [OF p2 assms(4)]
    by (rule warburg_decreasing [OF p1 lt assms(4)])
  have d': "\<bar>Im (Zw_closed ?w2 sigma)\<bar> < \<bar>Im (Zw_closed ?w1 sigma)\<bar>"
    using d e1 e2 by simp
  show ?thesis
    using c1 c2 z1 z2 r1 r2 m e1 e2 d d' by blast
qed

theorem branch_shapes_witness:
  "\<exists>c1 c2 w1 w2.
           Zc (omega_of 1) (1/10000) = Some c1 \<and> Zc (omega_of 10) (1/10000) = Some c2
         \<and> Zw (omega_of 1) (1/10) = Some w1 \<and> Zw (omega_of 10) (1/10) = Some w2
         \<and> Re c1 = 0 \<and> Re c2 = 0 \<and> cmod c2 < cmod c1
         \<and> \<bar>Re w1\<bar> = \<bar>Im w1\<bar> \<and> \<bar>Re w2\<bar> = \<bar>Im w2\<bar>
         \<and> \<bar>Re w2\<bar> < \<bar>Re w1\<bar> \<and> \<bar>Im w2\<bar> < \<bar>Im w1\<bar>"
  by (rule branch_shapes) simp_all

lemma Z_closed_parts:
  assumes "0 < f" "0 < Rct" "0 < Cdl" "0 < sigma"
  shows "Rs < Re (Z_closed f Rs Rct Cdl sigma)" and "Im (Z_closed f Rs Rct Cdl sigma) < 0"
proof -
  have w: "0 < 2 * pi * f" using assms(1) by simp
  have "0 < Re (Zp_closed (2 * pi * f) Rct Cdl) + Re (Zw_closed (2 * pi * f) sigma)"
    using Zp_signs(1) [OF w assms(2,3)] Zw_signs(1) [OF w assms(4)] by simp
  then show "Rs < Re (Z_closed f Rs Rct Cdl sigma)" by (simp add: Z_closed_def)
  have "Im (Zp_closed (2 * pi * f) Rct Cdl) + Im (Zw_closed (2 * pi * f) sigma) < 0"
    using Zp_signs(2) [OF w assms(2,3)] Zw_signs(2) [OF w assms(4)] by simp
  then show "Im (Z_closed f Rs Rct Cdl sigma) < 0" by (simp add: Z_closed_def)
qed

section \<open>C9: the impedance lies in the fourth quadrant, right of \<open>Rs\<close>\<close>

text \<open>
  C9. For a grid of positive frequencies and strictly positive parameters, every sample
  of the curve is finite with real part above \<open>Rs\<close> and negative imaginary part, so
  \<open>-Z.imag\<close> is positive at every sample; the parallel branch and the Warburg branch each
  have positive real part and negative imaginary part, and the sample is \<open>Rs\<close> plus
  the two.
\<close>

theorem impedance_quadrant:
  assumes "list_all (\<lambda>f. 0 < f) freq" and "0 < Rs" and "0 < Rct" and "0 < Cdl" and "0 < sigma"
  shows "\<exists>Z. cell_impedance freq Rs Rct Cdl sigma = Inr Z \<and> length Z = length freq
           \<and> list_all (\<lambda>s. \<exists>z. s = Some z \<and> Rs < Re z \<and> Im z < 0) Z
           \<and> list_all (\<lambda>v. \<exists>x. v = Some x \<and> 0 < x) (map neg_imag Z)
           \<and> list_all (\<lambda>f. \<exists>zp zw. Z_parallel Rct (Zc (omega_of f) Cdl) = Some zp
                            \<and> Zw (omega_of f) sigma = Some zw
                            \<and> 0 < Re zp \<and> Im zp < 0 \<and> 0 < Re zw \<and> Im zw < 0
                            \<and> cell_impedance_at f Rs Rct Cdl sigma
                                = Some (complex_of_real Rs + zp + zw)) freq"
proof -
  let ?Z = "map (\<lambda>f. Some (Z_closed f Rs Rct Cdl sigma)) freq"
  have nz: "list_all (\<lambda>f. f \<noteq> 0) freq"
    using assms(1) by (auto simp: list_all_iff)
  have a: "cell_impedance freq Rs Rct Cdl sigma = Inr ?Z"
    using cell_impedance_closed [OF nz] assms by simp
  have b: "length ?Z = length freq" by simp
  have c: "list_all (\<lambda>s. \<exists>z. s = Some z \<and> Rs < Re z \<and> Im z < 0) ?Z"
    using assms(1) Z_closed_parts [OF _ assms(3,4,5)] by (auto simp: list_all_iff)
  have d: "list_all (\<lambda>v. \<exists>x. v = Some x \<and> 0 < x) (map neg_imag ?Z)"
    using assms(1) Z_closed_parts(2) [OF _ assms(3,4,5)]
    by (auto simp: list_all_iff neg_imag_def)
  have e: "\<exists>zp zw. Z_parallel Rct (Zc (omega_of f) Cdl) = Some zp
                            \<and> Zw (omega_of f) sigma = Some zw
                            \<and> 0 < Re zp \<and> Im zp < 0 \<and> 0 < Re zw \<and> Im zw < 0
                            \<and> cell_impedance_at f Rs Rct Cdl sigma
                                = Some (complex_of_real Rs + zp + zw)" if "0 < f" for f
  proof -
    have w: "0 < omega_of f" using that by (rule omega_of_pos)
    then have w0: "omega_of f \<noteq> 0" by simp
    have 1: "Z_parallel Rct (Zc (omega_of f) Cdl) = Some (Zp_closed (omega_of f) Rct Cdl)"
      using Z_parallel_Some [OF w0] assms by simp
    have 2: "Zw (omega_of f) sigma = Some (Zw_closed (omega_of f) sigma)"
      by (rule Zw_Some [OF w0])
    have 3: "cell_impedance_at f Rs Rct Cdl sigma
       = Some (complex_of_real Rs + Zp_closed (omega_of f) Rct Cdl + Zw_closed (omega_of f) sigma)"
      using cell_impedance_at_Some [of f Rct Cdl Rs sigma] that assms
      by (simp add: Z_closed_def omega_of_def)
    show ?thesis
      using 1 2 3 Zp_signs [OF w assms(3,4)] Zw_signs [OF w assms(5)] by blast
  qed
  have f: "list_all (\<lambda>f. \<exists>zp zw. Z_parallel Rct (Zc (omega_of f) Cdl) = Some zp
                            \<and> Zw (omega_of f) sigma = Some zw
                            \<and> 0 < Re zp \<and> Im zp < 0 \<and> 0 < Re zw \<and> Im zw < 0
                            \<and> cell_impedance_at f Rs Rct Cdl sigma
                                = Some (complex_of_real Rs + zp + zw)) freq"
    using assms(1) e unfolding list_all_iff by blast
  show ?thesis using a b c d f by blast
qed

theorem impedance_quadrant_witness:
  "\<exists>Z. cell_impedance [1, 10] (1/10) 1 (1/10000) (1/10) = Inr Z \<and> length Z = 2
           \<and> list_all (\<lambda>s. \<exists>z. s = Some z \<and> 1/10 < Re z \<and> Im z < 0) Z
           \<and> list_all (\<lambda>v. \<exists>x. v = Some x \<and> 0 < x) (map neg_imag Z)"
  using impedance_quadrant [of "[1, 10]" "1/10" 1 "1/10000" "1/10"] by auto

lemma first_min_index_snoc:
  assumes "first_min_index pre k"
  shows "first_min_index (pre @ [v]) (if v < pre ! k then length pre else k)"
proof (cases "v < pre ! k")
  case True
  have "(pre @ [v]) ! j \<ge> v" if "j < length (pre @ [v])" for j
  proof (cases "j < length pre")
    case True
    then have "pre ! k \<le> pre ! j" using assms by (simp add: first_min_index_def)
    then show ?thesis using \<open>v < pre ! k\<close> True by (simp add: nth_append)
  next
    case False
    then have "j = length pre" using that by simp
    then show ?thesis by simp
  qed
  moreover have "v < (pre @ [v]) ! j" if "j < length pre" for j
  proof -
    have "pre ! k \<le> pre ! j" using assms that by (simp add: first_min_index_def)
    then show ?thesis using True that by (simp add: nth_append)
  qed
  ultimately show ?thesis using True by (simp add: first_min_index_def)
next
  case False
  have k: "k < length pre" using assms by (simp add: first_min_index_def)
  have "(pre @ [v]) ! k \<le> (pre @ [v]) ! j" if "j < length (pre @ [v])" for j
  proof (cases "j < length pre")
    case True
    then show ?thesis using assms k by (simp add: first_min_index_def nth_append)
  next
    case False
    then have "j = length pre" using that by simp
    then show ?thesis using \<open>\<not> v < pre ! k\<close> k by (simp add: nth_append)
  qed
  moreover have "(pre @ [v]) ! k < (pre @ [v]) ! j" if "j < k" for j
    using assms that k by (simp add: first_min_index_def nth_append)
  ultimately show ?thesis using False k by (simp add: first_min_index_def)
qed

lemma argmin_scan_first_min:
  assumes "first_min_index pre k"
  shows "first_min_index (pre @ vs) (argmin_scan (map Some vs) (length pre) (pre ! k) k)"
  using assms
proof (induction vs arbitrary: pre k)
  case Nil
  then show ?case by simp
next
  case (Cons v vs)
  let ?k' = "if v < pre ! k then length pre else k"
  have step: "first_min_index (pre @ [v]) ?k'"
    by (rule first_min_index_snoc [OF Cons.prems])
  have k: "k < length pre" using Cons.prems by (simp add: first_min_index_def)
  have val: "(pre @ [v]) ! ?k' = (if v < pre ! k then v else pre ! k)"
    using k by (simp add: nth_append)
  have "first_min_index ((pre @ [v]) @ vs)
          (argmin_scan (map Some vs) (length (pre @ [v])) ((pre @ [v]) ! ?k') ?k')"
    by (rule Cons.IH [OF step])
  then show ?case
    unfolding val by (cases "v < pre ! k") simp_all
qed

lemma first_min_index_single: "first_min_index [x] 0"
  by (simp add: first_min_index_def)

lemma np_argmin_first_min:
  assumes "a \<noteq> []"
  shows "\<exists>k. np_argmin (map Some a) = Inr k \<and> first_min_index a k"
proof -
  obtain x vs where a: "a = x # vs" using assms by (cases a) auto
  have "first_min_index ([x] @ vs) (argmin_scan (map Some vs) (length [x]) ([x] ! 0) 0)"
    by (rule argmin_scan_first_min [OF first_min_index_single])
  then show ?thesis by (simp add: a np_argmin_def)
qed

lemma first_min_index_unique:
  assumes "first_min_index a k" "first_min_index a k'"
  shows "k = k'"
proof (rule ccontr)
  assume "k \<noteq> k'"
  then consider "k < k'" | "k' < k" by linarith
  then show False
  proof cases
    case 1
    then have "a ! k' < a ! k" using assms(2) by (simp add: first_min_index_def)
    moreover have "a ! k \<le> a ! k'" using assms by (simp add: first_min_index_def)
    ultimately show False by simp
  next
    case 2
    then have "a ! k < a ! k'" using assms(1) by (simp add: first_min_index_def)
    moreover have "a ! k' \<le> a ! k" using assms by (simp add: first_min_index_def)
    ultimately show False by simp
  qed
qed

lemma argmax_scan_as_argmin:
  "argmax_scan xs i m k = argmin_scan (map (map_option uminus) xs) i (- m) k"
  by (induction xs i m k rule: argmax_scan.induct) simp_all

lemma first_max_index_as_min:
  "first_max_index a k \<longleftrightarrow> first_min_index (map uminus a) k"
  unfolding first_max_index_def first_min_index_def
  by (rule iffI; clarsimp)

lemma np_argmax_as_argmin:
  "np_argmax (map Some a) = np_argmin (map Some (map uminus a))"
  by (cases a) (simp_all add: np_argmax_def np_argmin_def argmax_scan_as_argmin comp_def)

lemma np_argmax_first_max:
  assumes "a \<noteq> []"
  shows "\<exists>k. np_argmax (map Some a) = Inr k \<and> first_max_index a k"
proof -
  have "map uminus a \<noteq> []" using assms by simp
  from np_argmin_first_min [OF this] show ?thesis
    by (simp add: np_argmax_as_argmin first_max_index_as_min)
qed

lemma first_max_index_unique:
  assumes "first_max_index a k" "first_max_index a k'"
  shows "k = k'"
  using assms first_min_index_unique unfolding first_max_index_as_min by blast

lemma neg_imag_finite: "map neg_imag (map Some zs) = map Some (map (\<lambda>z. - Im z) zs)"
  by (simp add: neg_imag_def)

section \<open>C2: the index-based time constant\<close>

text \<open>
  C2. For every non-empty finite cell curve, \<open>tau\<close> is \<open>k_peak / (2\<pi>)\<close>, where \<open>k_peak\<close>
  is the index at which \<open>-Im\<close> of the curve is largest, the first such index when the
  maximum is attained more than once. The value is a function of that index alone: any
  other finite curve has the same \<open>tau\<close> exactly when its peak is at the same index,
  whatever the frequencies and the impedance values are.
\<close>

theorem tau_index_based:
  assumes "zs \<noteq> []"
  shows "\<exists>k_peak. first_max_index (map (\<lambda>z. - Im z) zs) k_peak
           \<and> tau (map Some zs) = Inr (real k_peak / (2 * pi))
           \<and> (\<forall>zs' k'. first_max_index (map (\<lambda>z. - Im z) zs') k' \<longrightarrow>
                  (tau (map Some zs') = tau (map Some zs) \<longleftrightarrow> k' = k_peak))"
proof -
  let ?a = "map (\<lambda>z. - Im z) zs"
  have ne: "?a \<noteq> []" using assms by simp
  obtain k where k: "np_argmax (map Some ?a) = Inr k" "first_max_index ?a k"
    using np_argmax_first_max [OF ne] by blast
  have t: "tau (map Some zs) = Inr (real k / (2 * pi))"
    unfolding tau_def neg_imag_finite k(1) by simp
  have "tau (map Some zs') = tau (map Some zs) \<longleftrightarrow> k' = k"
    if h: "first_max_index (map (\<lambda>z. - Im z) zs') k'" for zs' k'
  proof -
    let ?b = "map (\<lambda>z. - Im z) zs'"
    have "?b \<noteq> []" using h by (auto simp: first_max_index_def)
    then obtain j where j: "np_argmax (map Some ?b) = Inr j" "first_max_index ?b j"
      using np_argmax_first_max by blast
    have "j = k'" using j(2) h by (rule first_max_index_unique)
    have "tau (map Some zs') = Inr (real j / (2 * pi))"
      unfolding tau_def neg_imag_finite j(1) by simp
    then have "tau (map Some zs') = Inr (real k' / (2 * pi))"
      using \<open>j = k'\<close> by simp
    then show ?thesis using t by simp
  qed
  then show ?thesis using k(2) t by blast
qed

theorem tau_index_based_witness:
  "\<exists>k_peak. first_max_index (map (\<lambda>z. - Im z) [Complex 1 (- 1), Complex 2 (- 3), Complex 5 (- 3)]) k_peak
           \<and> tau (map Some [Complex 1 (- 1), Complex 2 (- 3), Complex 5 (- 3)]) = Inr (real k_peak / (2 * pi))
           \<and> k_peak = 1"
proof -
  let ?zs = "[Complex 1 (- 1), Complex 2 (- 3), Complex 5 (- 3)]"
  have ne: "?zs \<noteq> []" by simp
  obtain k where k: "first_max_index (map (\<lambda>z. - Im z) ?zs) k"
      "tau (map Some ?zs) = Inr (real k / (2 * pi))"
    using tau_index_based [OF ne] by blast
  have "first_max_index (map (\<lambda>z. - Im z) ?zs) 1"
    by (simp add: first_max_index_def nth_Cons' less_Suc_eq)
  then have "k = 1" using k(1) first_max_index_unique by blast
  then show ?thesis using k by blast
qed

lemma getitem_Some_nth:
  assumes "k < length zs"
  shows "getitem (map Some zs) k = Inr (Some (zs ! k))"
  using assms by (simp add: getitem_def)

lemma idx_1Hz_first_min:
  assumes "freq \<noteq> []"
  shows "\<exists>k. idx_1Hz freq = Inr k \<and> first_min_index (map (\<lambda>f. \<bar>f - 1\<bar>) freq) k"
proof -
  have "map (\<lambda>f. \<bar>f - 1\<bar>) freq \<noteq> []" using assms by simp
  from np_argmin_first_min [OF this] show ?thesis
    by (simp add: idx_1Hz_def comp_def)
qed

lemma first_min_index_hits_one:
  assumes "first_min_index (map (\<lambda>f. \<bar>f - 1\<bar>) freq) k" "1 \<in> set freq"
  shows "freq ! k = 1"
proof -
  obtain j where j: "j < length freq" "freq ! j = 1"
    using assms(2) by (auto simp: in_set_conv_nth)
  have k: "k < length freq" using assms(1) by (simp add: first_min_index_def)
  have "map (\<lambda>f. \<bar>f - 1\<bar>) freq ! k \<le> map (\<lambda>f. \<bar>f - 1\<bar>) freq ! j"
    using assms(1) j(1) unfolding first_min_index_def length_map by blast
  then have "\<bar>freq ! k - 1\<bar> \<le> 0" using j k by simp
  then show ?thesis by simp
qed

lemma cell_impedance_sample:
  assumes "cell_impedance freq Rs Rct Cdl sigma = Inr Z" "k < length freq"
  shows "cell_impedance [freq ! k] Rs Rct Cdl sigma = Inr [Z ! k]"
proof -
  have r: "Rct \<noteq> 0" using assms(1) by (auto simp: cell_impedance_def split: if_splits)
  have "Z = map (\<lambda>f. cell_impedance_at f Rs Rct Cdl sigma) freq"
    using assms(1) r by (simp add: cell_impedance_def)
  then show ?thesis using assms(2) r by (simp add: cell_impedance_def)
qed

section \<open>C5: the magnitude at the sample nearest to 1 Hz\<close>

text \<open>
  C5. For every non-empty grid and every finite curve of the same length, the reported
  magnitude is \<open>|Z[k]|\<close> at the index \<open>k\<close> whose frequency minimises \<open>|f - 1|\<close>, the
  lowest such index on a tie. When the grid contains the value \<open>1\<close>, that index holds
  \<open>1\<close>, and if the curve is the one \<open>cell_impedance\<close> computes on the grid, the sample
  there is what \<open>cell_impedance\<close> computes directly at the single frequency \<open>1\<close>.
\<close>

theorem abs_at_1Hz_nearest:
  assumes "freq \<noteq> []" and "length zs = length freq"
  shows "\<exists>k. first_min_index (map (\<lambda>f. \<bar>f - 1\<bar>) freq) k
           \<and> idx_1Hz freq = Inr k
           \<and> abs_at_1Hz freq (map Some zs) = Inr (Some (cmod (zs ! k)))
           \<and> (1 \<in> set freq \<longrightarrow> freq ! k = 1
                \<and> (\<forall>Rs Rct Cdl sigma.
                      cell_impedance freq Rs Rct Cdl sigma = Inr (map Some zs) \<longrightarrow>
                      cell_impedance [1] Rs Rct Cdl sigma = Inr [Some (zs ! k)]))"
proof -
  obtain k where k: "idx_1Hz freq = Inr k" "first_min_index (map (\<lambda>f. \<bar>f - 1\<bar>) freq) k"
    using idx_1Hz_first_min [OF assms(1)] by blast
  have kl: "k < length freq" using k(2) by (simp add: first_min_index_def)
  then have kz: "k < length zs" using assms(2) by simp
  have m: "abs_at_1Hz freq (map Some zs) = Inr (Some (cmod (zs ! k)))"
    unfolding abs_at_1Hz_def k(1) using getitem_Some_nth [OF kz] by (simp add: np_abs_def)
  have one: "freq ! k = 1
                \<and> (\<forall>Rs Rct Cdl sigma.
                      cell_impedance freq Rs Rct Cdl sigma = Inr (map Some zs) \<longrightarrow>
                      cell_impedance [1] Rs Rct Cdl sigma = Inr [Some (zs ! k)])"
    if h: "1 \<in> set freq"
  proof -
    have f1: "freq ! k = 1" by (rule first_min_index_hits_one [OF k(2) h])
    have "cell_impedance [1] Rs Rct Cdl sigma = Inr [Some (zs ! k)]"
      if c: "cell_impedance freq Rs Rct Cdl sigma = Inr (map Some zs)" for Rs Rct Cdl sigma
      using cell_impedance_sample [OF c kl] f1 kz by simp
    then show ?thesis using f1 by blast
  qed
  show ?thesis using k m one by blast
qed

theorem abs_at_1Hz_nearest_witness:
  "abs_at_1Hz [1/10, 1, 10] (map Some (map (\<lambda>f. Z_closed f (1/10) 1 (1/10000) (1/10)) [1/10, 1, 10]))
     = Inr (Some (cmod (Z_closed 1 (1/10) 1 (1/10000) (1/10))))
   \<and> idx_1Hz [1/10, 1, 10] = Inr 1
   \<and> cell_impedance [1] (1/10) 1 (1/10000) (1/10) = Inr [Some (Z_closed 1 (1/10) 1 (1/10000) (1/10))]"
proof -
  let ?freq = "[1/10, 1, 10] :: real list"
  let ?zs = "map (\<lambda>f. Z_closed f (1/10) 1 (1/10000) (1/10)) ?freq"
  have ne: "?freq \<noteq> []" and len: "length ?zs = length ?freq" by simp_all
  obtain k where k: "first_min_index (map (\<lambda>f. \<bar>f - 1\<bar>) ?freq) k"
      "idx_1Hz ?freq = Inr k"
      "abs_at_1Hz ?freq (map Some ?zs) = Inr (Some (cmod (?zs ! k)))"
      "1 \<in> set ?freq \<longrightarrow> ?freq ! k = 1
                \<and> (\<forall>Rs Rct Cdl sigma.
                      cell_impedance ?freq Rs Rct Cdl sigma = Inr (map Some ?zs) \<longrightarrow>
                      cell_impedance [1] Rs Rct Cdl sigma = Inr [Some (?zs ! k)])"
    using abs_at_1Hz_nearest [OF ne len] by blast
  have "first_min_index (map (\<lambda>f. \<bar>f - 1\<bar>) ?freq) 1"
    by (simp add: first_min_index_def nth_Cons' less_Suc_eq)
  then have k1: "k = 1" using k(1) first_min_index_unique by blast
  have c: "cell_impedance ?freq (1/10) 1 (1/10000) (1/10) = Inr (map Some ?zs)"
    using cell_impedance_closed [of ?freq 1 "1/10000" "1/10" "1/10"] by (simp add: comp_def)
  have "cell_impedance [1] (1/10) 1 (1/10000) (1/10) = Inr [Some (?zs ! k)]"
    using k(4) c by simp
  then show ?thesis using k(2,3) k1 by simp
qed

lemma cell_curves_Inr:
  assumes "list_all (\<lambda>p. p_Rct p \<noteq> 0) ps"
  shows "cell_curves freq ps acc = Inr (acc @ map (curve_of freq) ps)"
  using assms
proof (induction ps arbitrary: acc)
  case Nil
  then show ?case by simp
next
  case (Cons p ps)
  then show ?case by (simp add: cell_impedance_def curve_of_def)
qed

lemma cell_curves_Inl:
  assumes "\<not> list_all (\<lambda>p. p_Rct p \<noteq> 0) ps"
  shows "cell_curves freq ps acc = Inl ZeroDivisionError"
  using assms
proof (induction ps arbitrary: acc)
  case Nil
  then show ?case by simp
next
  case (Cons p ps)
  then show ?case by (cases "p_Rct p = 0") (simp_all add: cell_impedance_def)
qed

lemma foldl_map2_length:
  assumes "list_all (\<lambda>Z'. length Z' = length Z) rest"
  shows "length (foldl (\<lambda>acc Z'. map2 np_add acc Z') Z rest) = length Z"
  using assms by (induction rest arbitrary: Z) simp_all

lemma foldl_map2_nth:
  assumes "list_all (\<lambda>Z'. length Z' = length Z) rest" "k < length Z"
  shows "foldl (\<lambda>acc Z'. map2 np_add acc Z') Z rest ! k
         = foldl np_add (Z ! k) (map (\<lambda>Z'. Z' ! k) rest)"
  using assms
proof (induction rest arbitrary: Z)
  case Nil
  then show ?case by simp
next
  case (Cons Y rest)
  let ?Z' = "map2 np_add Z Y"
  have len: "length ?Z' = length Z" using Cons.prems by simp
  have all: "list_all (\<lambda>Z'. length Z' = length ?Z') rest"
    using Cons.prems len by simp
  have k: "k < length ?Z'" using Cons.prems len by simp
  have "?Z' ! k = np_add (Z ! k) (Y ! k)" using Cons.prems by simp
  then show ?case using Cons.IH [OF all k] by simp
qed

lemma foldl_np_add_Some:
  "foldl np_add (Some z) (map Some zs) = Some (z + sum_list zs)"
  by (induction zs arbitrary: z) (simp_all add: np_add_def add.assoc)

lemma np_sum_axis0_Array:
  assumes "list_all (\<lambda>Z'. length Z' = n) (Z # rest)"
  shows "\<exists>S. np_sum_axis0 (Z # rest) = Inr (Array S) \<and> length S = n
             \<and> (\<forall>k<n. S ! k = foldl np_add (Z ! k) (map (\<lambda>Z'. Z' ! k) rest))"
proof -
  have all: "list_all (\<lambda>Z'. length Z' = length Z) rest" and n: "length Z = n"
    using assms by (simp_all add: list_all_iff)
  show ?thesis
    using all n foldl_map2_length [OF all] foldl_map2_nth [OF all]
    by (simp add: np_sum_axis0_def)
qed

lemma tau_succeeds:
  assumes "Z \<noteq> []"
  shows "\<exists>t. tau Z = Inr t"
  using assms by (cases Z; cases "hd Z") (simp_all add: tau_def np_argmax_def neg_imag_def)

lemma argmin_scan_bound:
  assumes "k < i"
  shows "argmin_scan xs i m k < i + length xs \<or> argmin_scan xs i m k = k"
  using assms
proof (induction xs i m k rule: argmin_scan.induct)
  case (1 i m k)
  then show ?case by simp
next
  case (2 xs i m k)
  then show ?case by simp
next
  case (3 x xs i m k)
  then show ?case by (cases "x < m") fastforce+
qed

lemma np_argmin_bound:
  assumes "a \<noteq> []"
  shows "\<exists>k. np_argmin a = Inr k \<and> k < length a"
proof (cases a)
  case Nil
  then show ?thesis using assms by simp
next
  case (Cons x xs)
  show ?thesis
  proof (cases x)
    case None
    then show ?thesis using Cons by (simp add: np_argmin_def)
  next
    case (Some v)
    have "argmin_scan xs 1 v 0 < 1 + length xs \<or> argmin_scan xs 1 v 0 = 0"
      by (rule argmin_scan_bound) simp
    then show ?thesis using Cons Some by (auto simp: np_argmin_def)
  qed
qed

lemma abs_at_1Hz_succeeds:
  assumes "freq \<noteq> []" "length Z = length freq"
  shows "\<exists>m. abs_at_1Hz freq Z = Inr m"
proof -
  have "map (\<lambda>f. Some \<bar>f - 1\<bar>) freq \<noteq> []" using assms(1) by simp
  from np_argmin_bound [OF this]
  obtain k where "idx_1Hz freq = Inr k" "k < length freq"
    by (auto simp: idx_1Hz_def)
  then show ?thesis using assms(2) by (simp add: abs_at_1Hz_def getitem_def)
qed

lemma diagnostics_succeeds:
  assumes "freq \<noteq> []" "list_all (\<lambda>Z. length Z = length freq) Zs"
  shows "\<exists>ds. diagnostics freq Zs = Inr ds \<and> length ds = length Zs"
  using assms(2)
proof (induction Zs)
  case Nil
  then show ?case by simp
next
  case (Cons Z Zs)
  then have len: "length Z = length freq" and rest: "list_all (\<lambda>Z. length Z = length freq) Zs"
    by simp_all
  obtain m where m: "abs_at_1Hz freq Z = Inr m"
    using abs_at_1Hz_succeeds [OF assms(1) len] by blast
  have "Z \<noteq> []" using len assms(1) by auto
  then obtain t where t: "tau Z = Inr t" using tau_succeeds by blast
  obtain ds where ds: "diagnostics freq Zs = Inr ds" "length ds = length Zs"
    using Cons.IH [OF rest] by blast
  show ?case using m t ds by simp
qed

lemma plot_lines_ok:
  assumes "list_all (\<lambda>d. fst d = snd d) ds"
  shows "plot_lines ds = Inr ()"
  using assms by (induction ds rule: plot_lines.induct) simp_all

lemma plot_nyquist_ok: "plot_nyquist Z_stack Z_cells = Inr ()"
  unfolding plot_nyquist_def by (rule plot_lines_ok) (simp add: list_all_iff)

lemma plot_bode_ok:
  assumes "first_dim Z_stack = length freq" "list_all (\<lambda>Z. length Z = length freq) Z_cells"
  shows "plot_bode freq Z_stack Z_cells = Inr ()"
  unfolding plot_bode_def using assms by (intro plot_lines_ok) (auto simp: list_all_iff)

lemma plot_bode_scalar:
  assumes "length freq \<noteq> 1"
  shows "plot_bode freq (Scalar z) Z_cells = Inl ValueError"
  using assms by (simp add: plot_bode_def first_dim_def)

lemma stack_Inr:
  assumes "freq \<noteq> []" "ps \<noteq> []" "list_all (\<lambda>p. p_Rct p \<noteq> 0) ps"
  shows "\<exists>r S. stack freq ps = Inr r \<and> stackCurve r = Array S \<and> length S = length freq
            \<and> cellCurves r = map (curve_of freq) ps
            \<and> length (cellDiagnostics r) = length ps
            \<and> (\<forall>k<length freq. S ! k = foldl np_add (curve_of freq (hd ps) ! k)
                                      (map (\<lambda>Z'. Z' ! k) (map (curve_of freq) (tl ps))))"
proof -
  obtain p rest where ps: "ps = p # rest" using assms(2) by (cases ps) auto
  let ?Zs = "map (curve_of freq) ps"
  have cc: "cell_curves freq ps [] = Inr ?Zs"
    using cell_curves_Inr [OF assms(3), of freq "[]"] by simp
  have lens: "list_all (\<lambda>Z'. length Z' = length freq) ?Zs"
    by (simp add: list_all_iff curve_of_def)
  then have "list_all (\<lambda>Z'. length Z' = length freq) (curve_of freq p # map (curve_of freq) rest)"
    by (simp add: ps)
  from np_sum_axis0_Array [OF this]
  obtain S where S: "np_sum_axis0 ?Zs = Inr (Array S)" "length S = length freq"
     "\<forall>k<length freq. S ! k = foldl np_add (curve_of freq p ! k)
                                      (map (\<lambda>Z'. Z' ! k) (map (curve_of freq) rest))"
    unfolding ps by auto
  obtain ds where ds: "diagnostics freq ?Zs = Inr ds" "length ds = length ?Zs"
    using diagnostics_succeeds [OF assms(1) lens] by blast
  let ?r = "\<lparr>stackCurve = Array S, cellCurves = ?Zs, cellDiagnostics = ds\<rparr>"
  have pb: "plot_bode freq (Array S) ?Zs = Inr ()"
    using S(2) lens by (intro plot_bode_ok) (simp_all add: first_dim_def)
  have "stack freq ps = Inr ?r"
    by (simp add: stack_def cc S(1) plot_nyquist_ok pb ds(1))
  moreover have "\<forall>k<length freq. S ! k = foldl np_add (curve_of freq (hd ps) ! k)
                                      (map (\<lambda>Z'. Z' ! k) (map (curve_of freq) (tl ps)))"
    using S(3) by (simp add: ps)
  ultimately show ?thesis using S(2) ds(2) by auto
qed

lemma valid_params_nonzero:
  assumes "valid_params p"
  shows "p_Rct p \<noteq> 0" and "p_Cdl p \<noteq> 0"
  using assms by (simp_all add: valid_params_def)

lemma valid_grid_nth:
  assumes "valid_grid freq" "k < length freq"
  shows "0 < freq ! k"
  using assms by (simp add: valid_grid_def list_all_length)

lemma cell_impedance_curve_of:
  assumes "p_Rct p \<noteq> 0"
  shows "cell_impedance freq (p_Rs p) (p_Rct p) (p_Cdl p) (p_sigma p) = Inr (curve_of freq p)"
  using assms by (simp add: cell_impedance_def curve_of_def)

lemma curve_of_nth:
  assumes "valid_params p" "k < length freq" "freq ! k \<noteq> 0"
  shows "curve_of freq p ! k = Some (Z_of p (freq ! k))"
  using assms valid_params_nonzero [OF assms(1)]
  by (simp add: curve_of_def Z_of_def cell_impedance_at_Some)

lemma column_finite:
  assumes "list_all valid_params ps" "k < length freq" "freq ! k \<noteq> 0"
  shows "map (\<lambda>Z. Z ! k) (map (curve_of freq) ps) = map Some (map (\<lambda>p. Z_of p (freq ! k)) ps)"
  using assms by (induction ps) (simp_all add: curve_of_nth)

section \<open>C6: one sample per frequency\<close>

text \<open>
  C6. For a valid grid and valid parameters, \<open>cell_impedance\<close> returns a curve with
  exactly one sample per frequency of the grid; and for a non-empty list of valid cells
  the stack curve is an array of the same length, as is every cell curve of the result.
\<close>

theorem curve_shape:
  assumes "valid_grid freq" and "valid_params p" and "ps \<noteq> []" and "list_all valid_params ps"
  shows "(\<exists>Z. cell_impedance freq (p_Rs p) (p_Rct p) (p_Cdl p) (p_sigma p) = Inr Z
              \<and> length Z = length freq)
       \<and> (\<exists>r S. stack freq ps = Inr r \<and> stackCurve r = Array S \<and> length S = length freq
              \<and> length (cellCurves r) = length ps
              \<and> list_all (\<lambda>Z. length Z = length freq) (cellCurves r))"
proof -
  have "cell_impedance freq (p_Rs p) (p_Rct p) (p_Cdl p) (p_sigma p) = Inr (curve_of freq p)"
    by (rule cell_impedance_curve_of [OF valid_params_nonzero(1) [OF assms(2)]])
  moreover have "length (curve_of freq p) = length freq" by (simp add: curve_of_def)
  ultimately have one: "\<exists>Z. cell_impedance freq (p_Rs p) (p_Rct p) (p_Cdl p) (p_sigma p) = Inr Z
              \<and> length Z = length freq" by blast
  have ne: "freq \<noteq> []" using assms(1) by (simp add: valid_grid_def)
  have rct: "list_all (\<lambda>p. p_Rct p \<noteq> 0) ps"
    using assms(4) by (auto simp: list_all_iff valid_params_def)
  obtain r S where r: "stack freq ps = Inr r" "stackCurve r = Array S" "length S = length freq"
      "cellCurves r = map (curve_of freq) ps"
    using stack_Inr [OF ne assms(3) rct] by blast
  have "list_all (\<lambda>Z. length Z = length freq) (cellCurves r)"
    unfolding r(4) by (simp add: list_all_iff curve_of_def)
  moreover have "length (cellCurves r) = length ps" unfolding r(4) by simp
  ultimately show ?thesis using one r(1,2,3) by blast
qed

theorem curve_shape_witness:
  "(\<exists>Z. cell_impedance [1, 10] (1/10) 1 (1/10000) (1/10) = Inr Z \<and> length Z = 2)
   \<and> (\<exists>r S. stack [1, 10] [\<lparr>p_Rs = 1/10, p_Rct = 1, p_Cdl = 1/10000, p_sigma = 1/10\<rparr>,
                            \<lparr>p_Rs = 1/5, p_Rct = 2, p_Cdl = 1/1000, p_sigma = 1/2\<rparr>] = Inr r
          \<and> stackCurve r = Array S \<and> length S = 2 \<and> length (cellCurves r) = 2)"
  using curve_shape [of "[1, 10]" "\<lparr>p_Rs = 1/10, p_Rct = 1, p_Cdl = 1/10000, p_sigma = 1/10\<rparr>"
      "[\<lparr>p_Rs = 1/10, p_Rct = 1, p_Cdl = 1/10000, p_sigma = 1/10\<rparr>,
        \<lparr>p_Rs = 1/5, p_Rct = 2, p_Cdl = 1/1000, p_sigma = 1/2\<rparr>]"]
  by (auto simp add: valid_grid_def valid_params_def numeral_2_eq_2)

section \<open>C4: the stack curve is the sum of the cell curves\<close>

text \<open>
  C4. For a valid grid and a non-empty list of valid cells, \<open>stack\<close> succeeds, its cell
  curves are what \<open>cell_impedance\<close> returns for each cell in order, and at every grid
  index \<open>k\<close> the stack curve holds the finite complex sum of the cells' samples at \<open>k\<close>.
  For two cells the stack sample at \<open>k\<close> is the sum of the two cells' samples at \<open>k\<close>.
\<close>

theorem stack_is_sum:
  assumes "valid_grid freq" and "ps \<noteq> []" and "list_all valid_params ps"
  shows "\<exists>r S. stack freq ps = Inr r \<and> stackCurve r = Array S \<and> length S = length freq
           \<and> length (cellCurves r) = length ps
           \<and> (\<forall>i<length ps. cell_impedance freq (p_Rs (ps ! i)) (p_Rct (ps ! i))
                                 (p_Cdl (ps ! i)) (p_sigma (ps ! i)) = Inr (cellCurves r ! i))
           \<and> (\<forall>k<length freq. \<exists>zs. map (\<lambda>Z. Z ! k) (cellCurves r) = map Some zs
                                   \<and> S ! k = Some (sum_list zs))
           \<and> (length ps = 2 \<longrightarrow>
                (\<forall>k<length freq. S ! k = np_add (cellCurves r ! 0 ! k) (cellCurves r ! 1 ! k)))"
proof -
  have ne: "freq \<noteq> []" using assms(1) by (simp add: valid_grid_def)
  have rct: "list_all (\<lambda>p. p_Rct p \<noteq> 0) ps"
    using assms(3) by (auto simp: list_all_iff valid_params_def)
  obtain r S where r: "stack freq ps = Inr r" "stackCurve r = Array S" "length S = length freq"
      "cellCurves r = map (curve_of freq) ps"
      "\<forall>k<length freq. S ! k = foldl np_add (curve_of freq (hd ps) ! k)
                                      (map (\<lambda>Z'. Z' ! k) (map (curve_of freq) (tl ps)))"
    using stack_Inr [OF ne assms(2) rct] by blast
  obtain p rest where ps: "ps = p # rest" using assms(2) by (cases ps) auto
  have vp: "valid_params p" and vrest: "list_all valid_params rest"
    using assms(3) ps by simp_all
  have cells: "cell_impedance freq (p_Rs (ps ! i)) (p_Rct (ps ! i))
                                 (p_Cdl (ps ! i)) (p_sigma (ps ! i)) = Inr (cellCurves r ! i)"
    if "i < length ps" for i
  proof -
    have "p_Rct (ps ! i) \<noteq> 0" using rct that by (simp add: list_all_length)
    then show ?thesis using cell_impedance_curve_of that by (simp add: r(4))
  qed
  have col: "\<exists>zs. map (\<lambda>Z. Z ! k) (cellCurves r) = map Some zs \<and> S ! k = Some (sum_list zs)"
    if k: "k < length freq" for k
  proof -
    have nz: "freq ! k \<noteq> 0" using valid_grid_nth [OF assms(1) k] by simp
    let ?zs = "map (\<lambda>p. Z_of p (freq ! k)) ps"
    have a: "map (\<lambda>Z. Z ! k) (cellCurves r) = map Some ?zs"
      unfolding r(4) by (rule column_finite [OF assms(3) k nz])
    have "S ! k = foldl np_add (curve_of freq p ! k) (map (\<lambda>Z'. Z' ! k) (map (curve_of freq) rest))"
      using r(5) k by (simp add: ps)
    also have "\<dots> = foldl np_add (Some (Z_of p (freq ! k))) (map Some (map (\<lambda>p. Z_of p (freq ! k)) rest))"
      by (simp only: curve_of_nth [OF vp k nz] column_finite [OF vrest k nz])
    also have "\<dots> = Some (sum_list ?zs)"
      by (simp only: foldl_np_add_Some) (simp add: ps)
    finally show ?thesis using a by blast
  qed
  have two: "\<forall>k<length freq. S ! k = np_add (cellCurves r ! 0 ! k) (cellCurves r ! 1 ! k)"
    if "length ps = 2"
  proof -
    have "length rest = Suc 0" using that ps by simp
    then obtain q where rest: "rest = [q]"
      by (metis length_0_conv length_Suc_conv)
    show ?thesis using r(5) by (simp add: ps rest r(4))
  qed
  show ?thesis using r(1,2,3) r(4) cells col two by auto
qed

theorem stack_is_sum_witness:
  "\<exists>r S Z1 Z2.
      stack [1, 10] [\<lparr>p_Rs = 1/10, p_Rct = 1, p_Cdl = 1/10000, p_sigma = 1/10\<rparr>,
                     \<lparr>p_Rs = 1/5, p_Rct = 2, p_Cdl = 1/1000, p_sigma = 1/2\<rparr>] = Inr r
    \<and> stackCurve r = Array S \<and> length S = 2
    \<and> cell_impedance [1, 10] (1/10) 1 (1/10000) (1/10) = Inr Z1
    \<and> cell_impedance [1, 10] (1/5) 2 (1/1000) (1/2) = Inr Z2
    \<and> S ! 0 = np_add (Z1 ! 0) (Z2 ! 0) \<and> S ! 1 = np_add (Z1 ! 1) (Z2 ! 1)"
proof -
  let ?freq = "[1, 10] :: real list"
  let ?p1 = "\<lparr>p_Rs = 1/10, p_Rct = 1, p_Cdl = 1/10000, p_sigma = 1/10\<rparr>"
  let ?p2 = "\<lparr>p_Rs = 1/5, p_Rct = 2, p_Cdl = 1/1000, p_sigma = 1/2\<rparr>"
  have g: "valid_grid ?freq" by (simp add: valid_grid_def)
  have ne: "[?p1, ?p2] \<noteq> []" by simp
  have v: "list_all valid_params [?p1, ?p2]" by (simp add: valid_params_def)
  obtain r S where r: "stack ?freq [?p1, ?p2] = Inr r" "stackCurve r = Array S"
      "length S = length ?freq"
      "\<forall>i<length [?p1, ?p2]. cell_impedance ?freq (p_Rs ([?p1, ?p2] ! i)) (p_Rct ([?p1, ?p2] ! i))
                                 (p_Cdl ([?p1, ?p2] ! i)) (p_sigma ([?p1, ?p2] ! i)) = Inr (cellCurves r ! i)"
      "length [?p1, ?p2] = 2 \<longrightarrow>
                (\<forall>k<length ?freq. S ! k = np_add (cellCurves r ! 0 ! k) (cellCurves r ! 1 ! k))"
    using stack_is_sum [OF g ne v] by blast
  have c1: "cell_impedance ?freq (1/10) 1 (1/10000) (1/10) = Inr (cellCurves r ! 0)"
    using r(4) by (simp add: less_Suc_eq)
  have c2: "cell_impedance ?freq (1/5) 2 (1/1000) (1/2) = Inr (cellCurves r ! 1)"
    using r(4) by (simp add: less_Suc_eq)
  have s: "S ! 0 = np_add (cellCurves r ! 0 ! 0) (cellCurves r ! 1 ! 0)"
      "S ! 1 = np_add (cellCurves r ! 0 ! 1) (cellCurves r ! 1 ! 1)"
    using r(5) by (simp_all add: less_Suc_eq)
  have "length S = 2" using r(3) by simp
  then show ?thesis using r(1,2) c1 c2 s by blast
qed

lemma linspace_length: "length (linspace start stop num) = num"
  by (simp add: linspace_def)

lemma main_freq_length: "length main_freq = 300"
  by (simp add: main_freq_def logspace_def linspace_def)

lemma main_freq_nth:
  assumes "k < 300"
  shows "main_freq ! k = 10 powr (real k * (6 / 299) - 1)"
  using assms by (simp add: main_freq_def logspace_def linspace_def)

lemma main_freq_strict:
  assumes "i < j" "j < 300"
  shows "main_freq ! i < main_freq ! j"
proof -
  have "real i * (6 / 299) - 1 < real j * (6 / 299) - 1" using assms(1) by simp
  then have "(10::real) powr (real i * (6 / 299) - 1) < 10 powr (real j * (6 / 299) - 1)"
    by (simp only: powr_less_cancel_iff) 
  then show ?thesis using assms by (simp only: main_freq_nth) 
qed

lemma main_freq_valid: "valid_grid main_freq"
proof -
  have ne: "main_freq \<noteq> []" using main_freq_length by auto
  have pos: "list_all (\<lambda>f. 0 < f) main_freq"
    unfolding list_all_length main_freq_length by (simp add: main_freq_nth)
  have "sorted_wrt (<) main_freq"
    unfolding sorted_wrt_iff_nth_less main_freq_length using main_freq_strict by blast
  then show ?thesis using ne pos by (simp add: valid_grid_def)
qed

lemma main_freq_ends: "main_freq ! 0 = 1 / 10" "main_freq ! 299 = 100000"
proof -
  have "main_freq ! 0 = 10 powr (- 1)" using main_freq_nth [of 0] by simp
  then show "main_freq ! 0 = 1 / 10" by (simp add: powr_minus_divide)
  have "main_freq ! 299 = 10 powr 5" using main_freq_nth [of 299] by simp
  also have "\<dots> = 10 ^ 5" by (rule powr_numeral) simp
  finally show "main_freq ! 299 = 100000" by simp
qed

lemma read_cell_valid:
  assumes "cell_sliders_ok s"
  shows "valid_params (read_cell s)"
  using assms by (simp add: cell_sliders_ok_def slider_value_def valid_params_def read_cell_def)

lemma main_params_valid:
  assumes "sliders_ok num_cells sl"
  shows "main_params num_cells sl \<noteq> []"
    and "length (main_params num_cells sl) = nat num_cells"
    and "list_all valid_params (main_params num_cells sl)"
proof -
  show "length (main_params num_cells sl) = nat num_cells" by (simp add: main_params_def)
  moreover have "0 < nat num_cells" using assms by (simp add: sliders_ok_def)
  ultimately show "main_params num_cells sl \<noteq> []" by auto
  show "list_all valid_params (main_params num_cells sl)"
    using assms read_cell_valid by (auto simp: sliders_ok_def main_params_def list_all_iff)
qed

section \<open>C10: what \<open>main\<close> passes to the core\<close>

text \<open>
  C10. Whenever the sliders return values inside their ranges, \<open>main\<close> runs the core on
  valid inputs: the grid is the 300-point sequence \<open>10 powr (-1 + 6k/299)\<close>, from \<open>0.1\<close>
  to \<open>100000\<close>, non-empty, positive and strictly increasing; there are between one and
  five cells, each with strictly positive parameters; and \<open>main\<close> returns a result
  (no error is raised) whose stack curve has 300 samples.
\<close>

theorem main_meets_preconditions:
  assumes "sliders_ok num_cells sl"
  shows "length main_freq = 300 \<and> valid_grid main_freq
       \<and> (\<forall>k<300. main_freq ! k = 10 powr (- 1 + 6 * real k / 299))
       \<and> main_freq ! 0 = 1 / 10 \<and> main_freq ! 299 = 100000
       \<and> 1 \<le> length (main_params num_cells sl) \<and> length (main_params num_cells sl) \<le> 5
       \<and> list_all valid_params (main_params num_cells sl)
       \<and> (\<exists>r S. main num_cells sl = Inr r \<and> stackCurve r = Array S \<and> length S = 300
              \<and> length (cellCurves r) = nat num_cells
              \<and> length (cellDiagnostics r) = nat num_cells)"
proof -
  note p = main_params_valid [OF assms]
  have nth: "\<forall>k<300. main_freq ! k = 10 powr (- 1 + 6 * real k / 299)"
    by (simp add: main_freq_nth algebra_simps)
  have n: "1 \<le> length (main_params num_cells sl)" "length (main_params num_cells sl) \<le> 5"
    unfolding p(2) using assms by (auto simp: sliders_ok_def)
  have ne: "main_freq \<noteq> []" using main_freq_valid by (simp add: valid_grid_def)
  have rct: "list_all (\<lambda>p. p_Rct p \<noteq> 0) (main_params num_cells sl)"
    using p(3) by (auto simp: list_all_iff valid_params_def)
  obtain r S where r: "stack main_freq (main_params num_cells sl) = Inr r"
      "stackCurve r = Array S" "length S = length main_freq"
      "cellCurves r = map (curve_of main_freq) (main_params num_cells sl)"
      "length (cellDiagnostics r) = length (main_params num_cells sl)"
    using stack_Inr [OF ne p(1) rct] by blast
  have "\<exists>r S. main num_cells sl = Inr r \<and> stackCurve r = Array S \<and> length S = 300
              \<and> length (cellCurves r) = nat num_cells
              \<and> length (cellDiagnostics r) = nat num_cells"
    using r p(2) by (simp add: main_def main_freq_length)
  then show ?thesis
    using main_freq_length main_freq_valid nth main_freq_ends n p(3) by blast
qed

theorem main_meets_preconditions_witness:
  "valid_grid main_freq
   \<and> length (main_params 3 (\<lambda>i. \<lparr>s_Rs = 1/10, s_Rct = 1, s_log_cdl = - 4, s_sigma = 1/10\<rparr>)) = 3
   \<and> (\<exists>r S. main 3 (\<lambda>i. \<lparr>s_Rs = 1/10, s_Rct = 1, s_log_cdl = - 4, s_sigma = 1/10\<rparr>) = Inr r
         \<and> stackCurve r = Array S \<and> length S = 300 \<and> length (cellCurves r) = 3)"
proof -
  let ?sl = "\<lambda>i::nat. \<lparr>s_Rs = 1/10, s_Rct = 1, s_log_cdl = - 4, s_sigma = 1/10\<rparr>"
  have ok: "sliders_ok 3 ?sl"
    by (simp add: sliders_ok_def cell_sliders_ok_def slider_value_def list_all_iff)
  show ?thesis
    using main_meets_preconditions [OF ok] by (auto simp: main_params_def)
qed

lemma Zp_cmod_bound:
  assumes "0 < w" "0 < Cdl"
  shows "cmod (Zp_closed w Rct Cdl) \<le> 1 / (w * Cdl)"
proof -
  have pos: "0 < w * Cdl" using assms by simp
  have "w * Cdl = \<bar>Im (Complex (1 / Rct) (w * Cdl))\<bar>" using pos by simp
  also have "\<dots> \<le> cmod (Complex (1 / Rct) (w * Cdl))" by (rule abs_Im_le_cmod)
  finally have le: "w * Cdl \<le> cmod (Complex (1 / Rct) (w * Cdl))" .
  have "cmod (Zp_closed w Rct Cdl) = 1 / cmod (Complex (1 / Rct) (w * Cdl))"
    unfolding Zp_closed_def Zp_denominator by (simp add: norm_divide)
  also have "\<dots> \<le> 1 / (w * Cdl)"
    using le pos by (intro divide_left_mono) (auto intro: mult_pos_pos less_le_trans)
  finally show ?thesis .
qed

lemma Zp_parts_bound:
  assumes "0 < w" "0 < Cdl"
  shows "\<bar>Re (Zp_closed w Rct Cdl)\<bar> \<le> 1 / (w * Cdl)"
    and "\<bar>Im (Zp_closed w Rct Cdl)\<bar> \<le> 1 / (w * Cdl)"
  using Zp_cmod_bound [OF assms, of Rct] abs_Re_le_cmod [of "Zp_closed w Rct Cdl"]
    abs_Im_le_cmod [of "Zp_closed w Rct Cdl"] by linarith+

lemma capacitive_small:
  fixes w Cdl eps :: real
  assumes "0 < Cdl" "0 < eps" "2 / (eps * Cdl) < w"
  shows "1 / (w * Cdl) < eps / 2"
proof -
  have ec: "0 < eps * Cdl" using assms by simp
  have w: "0 < w" using assms(3) ec by (meson divide_pos_pos less_trans zero_less_numeral)
  have "2 < w * (eps * Cdl)" using assms(3) ec by (simp add: pos_divide_less_eq)
  then have "2 < eps * (w * Cdl)" by (simp add: mult.commute mult.left_commute)
  moreover have "0 < w * Cdl" using w assms(1) by simp
  ultimately show ?thesis by (simp add: pos_divide_less_eq mult.commute)
qed

lemma warburg_small:
  fixes w sigma eps :: real
  assumes "0 < sigma" "0 < eps" "2 * (sigma / eps)\<^sup>2 < w"
  shows "sigma / (2 * sqrt (w / 2)) < eps / 2"
proof -
  have se: "0 < sigma / eps" using assms by simp
  have "(sigma / eps)\<^sup>2 < w / 2" using assms(3) by simp
  then have "sqrt ((sigma / eps)\<^sup>2) < sqrt (w / 2)" by (simp only: real_sqrt_less_iff)
  moreover have "sqrt ((sigma / eps)\<^sup>2) = sigma / eps"
    using se by (intro real_sqrt_unique) simp_all
  ultimately have lt: "sigma / eps < sqrt (w / 2)" by simp
  then have sp: "0 < sqrt (w / 2)" using se by linarith
  have "sigma < sqrt (w / 2) * eps" using lt assms(2) by (simp add: pos_divide_less_eq)
  then have "sigma / sqrt (w / 2) < eps" using sp by (simp add: pos_divide_less_eq mult.commute)
  then have "sigma / sqrt (w / 2) / 2 < eps / 2" by simp
  then show ?thesis by (simp add: mult.commute)
qed

lemma omega_of_ge:
  assumes "0 < f"
  shows "f < omega_of f"
proof -
  have "1 < 2 * pi" using pi_ge_two by linarith
  then have "1 * f < (2 * pi) * f" using assms by (intro mult_strict_right_mono)
  then show ?thesis by (simp add: omega_of_def)
qed

lemma Z_closed_near_Rs:
  assumes "0 < Cdl" "0 < sigma" "0 < eps"
    and "max (2 / (eps * Cdl)) (2 * (sigma / eps)\<^sup>2) < f"
  shows "\<bar>Im (Z_closed f Rs Rct Cdl sigma)\<bar> < eps"
    and "\<bar>Re (Z_closed f Rs Rct Cdl sigma) - Rs\<bar> < eps"
proof -
  have "0 < 2 / (eps * Cdl)" using assms by simp
  then have fpos: "0 < f" using assms(4) by linarith
  let ?w = "omega_of f"
  have fw: "f < ?w" by (rule omega_of_ge [OF fpos])
  have w: "0 < ?w" using fpos fw by linarith
  have c: "1 / (?w * Cdl) < eps / 2"
    using assms(4) fw by (intro capacitive_small [OF assms(1,3)]) linarith
  have s: "sigma / (2 * sqrt (?w / 2)) < eps / 2"
    using assms(4) fw by (intro warburg_small [OF assms(2,3)]) linarith
  have Z: "Z_closed f Rs Rct Cdl sigma = complex_of_real Rs + Zp_closed ?w Rct Cdl + Zw_closed ?w sigma"
    by (simp add: Z_closed_def omega_of_def)
  have "\<bar>Im (Z_closed f Rs Rct Cdl sigma)\<bar> \<le> \<bar>Im (Zp_closed ?w Rct Cdl)\<bar> + \<bar>Im (Zw_closed ?w sigma)\<bar>"
    unfolding Z by simp
  also have "\<dots> \<le> 1 / (?w * Cdl) + sigma / (2 * sqrt (?w / 2))"
    using Zp_parts_bound(2) [OF w assms(1), of Rct] Zw_abs_parts(2) [OF w assms(2)] by linarith
  also have "\<dots> < eps" using c s by linarith
  finally show "\<bar>Im (Z_closed f Rs Rct Cdl sigma)\<bar> < eps" .
  have "\<bar>Re (Z_closed f Rs Rct Cdl sigma) - Rs\<bar> \<le> \<bar>Re (Zp_closed ?w Rct Cdl)\<bar> + \<bar>Re (Zw_closed ?w sigma)\<bar>"
    unfolding Z by simp
  also have "\<dots> \<le> 1 / (?w * Cdl) + sigma / (2 * sqrt (?w / 2))"
    using Zp_parts_bound(1) [OF w assms(1), of Rct] Zw_abs_parts(1) [OF w assms(2)] by linarith
  also have "\<dots> < eps" using c s by linarith
  finally show "\<bar>Re (Z_closed f Rs Rct Cdl sigma) - Rs\<bar> < eps" .
qed

section \<open>C7: the high-frequency limit\<close>

text \<open>
  C7. For strictly positive parameters and every tolerance \<open>eps > 0\<close> there is a
  frequency \<open>F\<close> such that at every frequency \<open>f > F\<close> the impedance \<open>cell_impedance\<close>
  returns is finite, its imaginary part is within \<open>eps\<close> of \<open>0\<close> and its real part is
  within \<open>eps\<close> of \<open>Rs\<close>.
\<close>

theorem high_frequency_limit:
  assumes "0 < Rs" and "0 < Rct" and "0 < Cdl" and "0 < sigma" and "0 < eps"
  shows "\<exists>F>0. \<forall>f>F. \<exists>z. cell_impedance [f] Rs Rct Cdl sigma = Inr [Some z]
                         \<and> \<bar>Im z\<bar> < eps \<and> \<bar>Re z - Rs\<bar> < eps"
proof -
  let ?F = "max (2 / (eps * Cdl)) (2 * (sigma / eps)\<^sup>2)"
  have "0 < 2 / (eps * Cdl)" using assms by simp
  then have Fpos: "0 < ?F" by linarith
  have "\<exists>z. cell_impedance [f] Rs Rct Cdl sigma = Inr [Some z]
                         \<and> \<bar>Im z\<bar> < eps \<and> \<bar>Re z - Rs\<bar> < eps" if f: "?F < f" for f
  proof -
    have "f \<noteq> 0" using f Fpos by linarith
    then have "cell_impedance [f] Rs Rct Cdl sigma = Inr [Some (Z_closed f Rs Rct Cdl sigma)]"
      using cell_impedance_closed [of "[f]" Rct Cdl Rs sigma] assms by simp
    then show ?thesis
      using Z_closed_near_Rs [OF assms(3,4,5) f, of Rs Rct] by blast
  qed
  then show ?thesis using Fpos by blast
qed

theorem high_frequency_limit_witness:
  "\<exists>F>0. \<forall>f>F. \<exists>z. cell_impedance [f] (1/10) 1 (1/10000) (1/10) = Inr [Some z]
                         \<and> \<bar>Im z\<bar> < 1/100 \<and> \<bar>Re z - 1/10\<bar> < 1/100"
  by (rule high_frequency_limit) simp_all

lemma cell_impedance_at_None_iff:
  assumes "Rct \<noteq> 0"
  shows "cell_impedance_at f Rs Rct Cdl sigma = None \<longleftrightarrow> f = 0 \<or> Cdl = 0"
proof (cases "f = 0 \<or> Cdl = 0")
  case False
  then show ?thesis using cell_impedance_at_Some [of f Rct Cdl Rs sigma] assms by simp
next
  case True
  then consider "f = 0" | "f \<noteq> 0" "Cdl = 0" by blast
  then have "cell_impedance_at f Rs Rct Cdl sigma = None"
  proof cases
    case 1
    then have "Zw (omega_of f) sigma = None"
      by (simp add: Zw_def np_div_def np_sqrt_def omega_of_def)
    then show ?thesis
      by (simp add: cell_impedance_at_def Let_def np_add_def split: option.splits)
  next
    case 2
    then have "Zc (omega_of f) Cdl = None" by (simp add: Zc_def np_div_def)
    then have "Z_parallel Rct (Zc (omega_of f) Cdl) = None"
      by (simp add: Z_parallel_def np_div_def np_add_def)
    then show ?thesis by (simp add: cell_impedance_at_def Let_def np_add_def)
  qed
  then show ?thesis using True by simp
qed

lemma stack_empty:
  assumes "length freq \<noteq> 1"
  shows "stack freq [] = Inl ValueError"
  by (simp add: stack_def np_sum_axis0_def plot_nyquist_ok plot_bode_scalar [OF assms])

section \<open>C3: failures of \<open>cell_impedance\<close> and of the empty stack\<close>

text \<open>
  C3, as stated, does not hold. The program has no validation and no \<open>DomainError\<close>:
  with a negative \<open>sigma\<close> (all else positive) \<open>cell_impedance\<close> does not fail, it
  returns an ordinary finite value.
\<close>

theorem no_validation_counterexample:
  "cell_impedance [1] 1 1 1 (- 1)
     = Inr [Some (1 + 1 / (1 + \<i> * complex_of_real (2 * pi))
                  + (- 1) / csqrt (\<i> * complex_of_real (2 * pi)))]"
proof -
  have "cell_impedance [1] 1 1 1 (- 1) = Inr [Some (Z_closed 1 1 1 1 (- 1))]"
    using cell_impedance_closed [of "[1]" 1 1 1 "- 1"] by simp
  then show ?thesis
    by (simp add: Z_closed_def Zp_closed_def Zw_closed_def del: csqrt.simps)
qed

text \<open>
  C3, amended. \<open>cell_impedance\<close> fails exactly when \<open>Rct = 0\<close>, and then with
  \<open>ZeroDivisionError\<close>. For every other input, a negative \<open>sigma\<close> included, it
  returns one sample per frequency; a zero frequency or \<open>Cdl = 0\<close> is no failure
  either, the sample there is NaN. The stack of an empty list of cells fails, with the
  \<open>ValueError\<close> of the Bode plot, on every grid whose length is not 1.
\<close>

theorem cell_impedance_failures:
  "(isl (cell_impedance freq Rs Rct Cdl sigma) \<longleftrightarrow> Rct = 0)
   \<and> (Rct = 0 \<longrightarrow> cell_impedance freq Rs Rct Cdl sigma = Inl ZeroDivisionError)
   \<and> (Rct \<noteq> 0 \<longrightarrow>
        (\<exists>Z. cell_impedance freq Rs Rct Cdl sigma = Inr Z \<and> length Z = length freq
           \<and> (\<forall>k<length freq. freq ! k = 0 \<or> Cdl = 0 \<longrightarrow> Z ! k = None)))
   \<and> (length freq \<noteq> 1 \<longrightarrow> stack freq [] = Inl ValueError)"
proof -
  have a: "isl (cell_impedance freq Rs Rct Cdl sigma) \<longleftrightarrow> Rct = 0"
    by (simp add: cell_impedance_def)
  have b: "Rct = 0 \<longrightarrow> cell_impedance freq Rs Rct Cdl sigma = Inl ZeroDivisionError"
    by (simp add: cell_impedance_def)
  have c: "\<exists>Z. cell_impedance freq Rs Rct Cdl sigma = Inr Z \<and> length Z = length freq
           \<and> (\<forall>k<length freq. freq ! k = 0 \<or> Cdl = 0 \<longrightarrow> Z ! k = None)" if r: "Rct \<noteq> 0"
  proof -
    let ?Z = "map (\<lambda>f. cell_impedance_at f Rs Rct Cdl sigma) freq"
    have 1: "cell_impedance freq Rs Rct Cdl sigma = Inr ?Z" by (rule cell_impedance_Inr [OF r])
    have 2: "length ?Z = length freq" by simp
    have 3: "freq ! k = 0 \<or> Cdl = 0 \<longrightarrow> ?Z ! k = None" if "k < length freq" for k
      using that cell_impedance_at_None_iff [OF r] by simp
    show ?thesis using 1 2 3 by blast
  qed
  have d: "length freq \<noteq> 1 \<longrightarrow> stack freq [] = Inl ValueError"
    using stack_empty by blast
  show ?thesis using a b c d by blast
qed

theorem cell_impedance_failures_witness:
  "cell_impedance [1] 1 0 1 1 = Inl ZeroDivisionError
   \<and> (\<exists>Z. cell_impedance [0, 1] 1 1 1 (- 1) = Inr Z \<and> length Z = 2 \<and> Z ! 0 = None)
   \<and> cell_impedance [1] 1 1 0 1 = Inr [None]
   \<and> stack [1, 10] [] = Inl ValueError"
proof -
  have a: "cell_impedance [1] 1 0 1 1 = Inl ZeroDivisionError"
    using cell_impedance_failures [of "[1]" 1 0 1 1] by simp
  obtain Z where Z: "cell_impedance [0, 1] 1 1 1 (- 1) = Inr Z" "length Z = length [0, 1::real]"
      "\<forall>k<length [0, 1::real]. [0, 1::real] ! k = 0 \<or> (1::real) = 0 \<longrightarrow> Z ! k = None"
    using cell_impedance_failures [of "[0, 1]" 1 1 1 "- 1"] by auto
  have "Z ! 0 = None" using Z(3) by simp
  moreover have "length Z = 2" using Z(2) by simp
  ultimately have b: "\<exists>Z. cell_impedance [0, 1] 1 1 1 (- 1) = Inr Z \<and> length Z = 2 \<and> Z ! 0 = None"
    using Z(1) by blast
  obtain Y where Y: "cell_impedance [1] 1 1 0 1 = Inr Y" "length Y = length [1::real]"
      "\<forall>k<length [1::real]. [1::real] ! k = 0 \<or> (0::real) = 0 \<longrightarrow> Y ! k = None"
    using cell_impedance_failures [of "[1]" 1 1 0 1] by auto
  have "Y ! 0 = None" using Y(3) by simp
  moreover obtain x where "Y = [x]"
    using Y(2) by (metis length_0_conv length_Suc_conv One_nat_def list.size(3,4))
  ultimately have c: "Y = [None]" by simp
  have d: "stack [1, 10] [] = Inl ValueError"
    using cell_impedance_failures [of "[1, 10]" 0 0 0 0] by simp
  show ?thesis using a b Y(1) c d by simp
qed

end
